theory Spec2Isabelle
  imports Main "HOL-Library.Stream"
begin

unbundle bit_operations_syntax

section \<open>Constants of the script\<close>

text \<open>
  The module-level constants of \<^verbatim>\<open>reference.py\<close>. Python integers are unbounded, so
  they are modelled as \<^typ>\<open>int\<close>; positions inside Python sequences are \<^typ>\<open>nat\<close>.
\<close>

definition DISPLAY_WIDTH :: int where
  "DISPLAY_WIDTH = 240"

definition DISPLAY_HEIGHT :: int where
  "DISPLAY_HEIGHT = 135"

definition DATE_OFFSET :: nat where
  "DATE_OFFSET = 35"

definition DELAY_OFFSET :: nat where
  "DELAY_OFFSET = 43"

definition FRAMES_1_OFFSET :: nat where
  "FRAMES_1_OFFSET = 34"

definition FRAMES_2_OFFSET :: nat where
  "FRAMES_2_OFFSET = 46"

definition DEFAULT_ANIMATION_DELAY_MS :: int where
  "DEFAULT_ANIMATION_DELAY_MS = 100"

section \<open>Errors\<close>

text \<open>
  Every exception the modelled code can raise is a value. \<open>ValueError\<close> carries the
  message of the \<^verbatim>\<open>raise\<close> statement (the specification calls it InvalidArgument),
  \<open>IndexError\<close> is Python's out-of-range store, and \<open>USBTimeoutError\<close> is what the USB
  library raises when a read times out (the specification's DeviceTimeout).
\<close>

datatype error = ValueError string | IndexError | USBTimeoutError

section \<open>The BCD encoder\<close>

text \<open>
  \<^verbatim>\<open>Keyboard._int_to_bcd\<close>: the range check, then
  \<^verbatim>\<open>(n // 10) << 4 | (n % 10)\<close>. Python's \<^verbatim>\<open>//\<close> and \<^verbatim>\<open>%\<close> round towards minus
  infinity, as \<open>div\<close> and \<open>mod\<close> on \<^typ>\<open>int\<close> do.
\<close>

definition int_to_bcd :: "int \<Rightarrow> error + int" where
  "int_to_bcd n =
     (if \<not> (0 \<le> n \<and> n \<le> 99)
      then Inl (ValueError ''Input for BCD conversion must be between 0 and 99'')
      else Inr (push_bit 4 (n div 10) OR (n mod 10)))"

section \<open>The frame encoder\<close>

text \<open>
  A pixel is the RGB triple that the image library hands out. The body of the loop of
  \<^verbatim>\<open>Keyboard.encode_frame\<close> computes the 16-bit value \<open>val\<close> of one pixel; it is
  named \<open>rgb565\<close> here, and \<open>pixel_hi\<close> and \<open>pixel_lo\<close> are the two bytes the loop stores.
\<close>

type_synonym pixel = "int \<times> int \<times> int"

definition rgb565 :: "pixel \<Rightarrow> int" where
  "rgb565 pixel =
     (case pixel of (p0, p1, p2) \<Rightarrow>
        let r = drop_bit 3 p0 AND 0x1F;
            g = drop_bit 2 p1 AND 0x3F;
            b = drop_bit 3 p2 AND 0x1F
        in push_bit 11 r OR push_bit 5 g OR b)"

definition pixel_hi :: "pixel \<Rightarrow> int" where
  "pixel_hi pixel = drop_bit 8 (rgb565 pixel) AND 0xff"

definition pixel_lo :: "pixel \<Rightarrow> int" where
  "pixel_lo pixel = rgb565 pixel AND 0xff"

definition frame_size :: nat where
  "frame_size = nat (((DISPLAY_WIDTH * DISPLAY_HEIGHT * 2) + 0x7fff) AND NOT 0x7fff)"

text \<open>
  The loop \<^verbatim>\<open>for idx, pixel in enumerate(frame)\<close>. The buffer is an \<^verbatim>\<open>array('B')\<close> of
  \<open>frame_size\<close> bytes; a store past its end raises IndexError. Both stored values are
  masked with \<open>0xff\<close>, so the byte range of the array is never violated.
\<close>

fun encode_loop :: "nat \<Rightarrow> pixel list \<Rightarrow> int list \<Rightarrow> error + int list" where
  "encode_loop idx [] frame_buffer = Inr frame_buffer"
| "encode_loop idx (pixel # rest) frame_buffer =
     (if \<not> idx * 2 < length frame_buffer then Inl IndexError
      else let frame_buffer1 = frame_buffer[idx * 2 := pixel_hi pixel]
           in if \<not> idx * 2 + 1 < length frame_buffer1 then Inl IndexError
              else encode_loop (Suc idx) rest (frame_buffer1[idx * 2 + 1 := pixel_lo pixel]))"

definition encode_frame :: "pixel list \<Rightarrow> error + int list" where
  "encode_frame frame = encode_loop 0 frame (replicate frame_size 0)"

section \<open>The USB transport\<close>

text \<open>
  \<^verbatim>\<open>USBDevice\<close> wraps the USB library. What the device sends back is not decided by
  the script, so it is a parameter of the model: \<open>incoming\<close> is the stream of the outcomes
  of the successive calls of \<^verbatim>\<open>ep_in.read(8, timeout=50000)\<close>, each either a timeout of
  that one read (the library raises) or the bytes received. \<open>written\<close> logs the packets
  handed to \<^verbatim>\<open>ep_out.write\<close>, oldest first. Failures of the write itself (the
  library's conversion of the list to bytes, the USB transfer) are outside the model:
  a write always succeeds.
\<close>

datatype read_result = Timeout | Response "int list"

record usb_device =
  written :: "int list list"
  incoming :: "read_result stream"

definition usb_write :: "int list \<Rightarrow> usb_device \<Rightarrow> usb_device" where
  "usb_write data dev =
     (let data1 = (if length data < 64 then data @ replicate (64 - length data) 0 else data)
      in dev\<lparr>written := written dev @ [data1]\<rparr>)"

definition usb_read :: "usb_device \<Rightarrow> (error + int list) \<times> usb_device" where
  "usb_read dev =
     (case shd (incoming dev) of
        Timeout \<Rightarrow> (Inl USBTimeoutError, dev\<lparr>incoming := stl (incoming dev)\<rparr>)
      | Response response \<Rightarrow> (Inr response, dev\<lparr>incoming := stl (incoming dev)\<rparr>))"

section \<open>The keyboard\<close>

text \<open>
  \<^verbatim>\<open>self.config\<close> is a Python list after \<^verbatim>\<open>load_config\<close> (any integer can be
  stored in it) and a \<^verbatim>\<open>bytearray\<close> after \<^verbatim>\<open>reset\<close> (a store checks the byte range).
  Both are kept apart, since an item assignment behaves differently on them. On a
  \<^verbatim>\<open>bytearray\<close> a value outside the byte range raises ValueError and a position outside
  the array IndexError; which of the two is raised when both apply plays no role below.
\<close>

datatype blob = PyList "int list" | PyBytearray "int list"

fun blob_items :: "blob \<Rightarrow> int list" where
  "blob_items (PyList xs) = xs"
| "blob_items (PyBytearray xs) = xs"

fun blob_setitem :: "blob \<Rightarrow> nat \<Rightarrow> int \<Rightarrow> error + blob" where
  "blob_setitem (PyList xs) i v =
     (if i < length xs then Inr (PyList (xs[i := v])) else Inl IndexError)"
| "blob_setitem (PyBytearray xs) i v =
     (if \<not> (0 \<le> v \<and> v < 256) then Inl (ValueError ''byte must be in range(0, 256)'')
      else if i < length xs then Inr (PyBytearray (xs[i := v])) else Inl IndexError)"

record keyboard =
  usb :: usb_device
  config :: blob
  config_needs_update :: bool

definition Keyboard_init :: "usb_device \<Rightarrow> keyboard" where
  "Keyboard_init usb_device = \<lparr>usb = usb_device, config = PyList [], config_needs_update = False\<rparr>"

text \<open>
  A method of \<^verbatim>\<open>Keyboard\<close> takes the object and gives back the object as the call
  left it, with either the value returned or the exception raised. A call that never
  returns (the reception loop below can spin forever) is \<open>None\<close>.
\<close>

type_synonym 'a action = "keyboard \<Rightarrow> ((error + 'a) \<times> keyboard) option"

definition and_then :: "'a action \<Rightarrow> ('a \<Rightarrow> 'b action) \<Rightarrow> 'b action" where
  "and_then m f s =
     (case m s of
        None \<Rightarrow> None
      | Some (Inl e, s1) \<Rightarrow> Some (Inl e, s1)
      | Some (Inr x, s1) \<Rightarrow> f x s1)"

definition done_with :: "'a \<Rightarrow> 'a action" where
  "done_with x s = Some (Inr x, s)"

definition raise_or :: "error + 'a \<Rightarrow> 'a action" where
  "raise_or r s = Some (r, s)"

subsection \<open>send_command\<close>

text \<open>
  Lines 277 to 289 of \<^verbatim>\<open>send_command\<close>: the 64-entry list \<open>buffer\<close> as it is when it is
  handed to the transport. The slice assignment \<^verbatim>\<open>buffer[8:8+len(data)] = data\<close>
  replaces the entries from 8 up to (not including) \<open>8 + len(data)\<close> by \<open>data\<close>.
\<close>

definition request_buffer :: "int \<Rightarrow> int list \<Rightarrow> int \<Rightarrow> int list" where
  "request_buffer command_id data pos =
     (let buffer0 = (replicate 64 0)
                      [0 := 0x04,
                       3 := command_id,
                       4 := int (length data),
                       5 := pos AND 0xff,
                       6 := drop_bit 8 pos AND 0xff,
                       7 := drop_bit 16 pos AND 0xff];
          buffer1 = take 8 buffer0 @ data @ drop (8 + length data) buffer0;
          checksum = sum_list (drop 3 buffer1)
      in buffer1[1 := checksum AND 0xff, 2 := drop_bit 8 checksum AND 0xff])"

text \<open>
  The reception loop \<^verbatim>\<open>while True\<close> of \<^verbatim>\<open>send_command\<close>: read, compare the first
  three bytes with those of the request, return the bytes from offset 4 on a match and
  read again otherwise. An exception of the read leaves the loop. The loop has no
  counter, so it is a partial function.
\<close>

partial_function (option) await_response :: "int list \<Rightarrow> keyboard \<Rightarrow> ((error + int list) \<times> keyboard) option" where
  "await_response buffer s =
     (case usb_read (usb s) of
        (Inl e, dev) \<Rightarrow> Some (Inl e, s\<lparr>usb := dev\<rparr>)
      | (Inr response, dev) \<Rightarrow>
          if take 3 response = take 3 buffer
          then Some (Inr (drop 4 response), s\<lparr>usb := dev\<rparr>)
          else await_response buffer (s\<lparr>usb := dev\<rparr>))"

text \<open>
  \<^verbatim>\<open>time.sleep(0.1)\<close> before command 2 changes no data and is left out.
\<close>

definition send_command :: "int \<Rightarrow> int list \<Rightarrow> int \<Rightarrow> int list action" where
  "send_command command_id data pos s =
     (if \<not> (0 < command_id \<and> command_id \<le> 0xff)
      then Some (Inl (ValueError ''Command ID must be between 1 and 255.''), s)
      else if length data > 56
      then Some (Inl (ValueError ''Data payload cannot exceed 56 bytes.''), s)
      else let buffer = request_buffer command_id data pos
           in await_response buffer (s\<lparr>usb := usb_write buffer (usb s)\<rparr>))"

subsection \<open>load_config\<close>

text \<open>The two \<^verbatim>\<open>for\<close> loops of \<^verbatim>\<open>load_config\<close>, over the values of \<^verbatim>\<open>range\<close>.\<close>

fun probe_loop :: "nat list \<Rightarrow> unit action" where
  "probe_loop [] s = Some (Inr (), s)"
| "probe_loop (i # rest) s =
     (case send_command 3 (replicate 4 0x00) (int i * 4) s of
        None \<Rightarrow> None
      | Some (Inl e, s1) \<Rightarrow> Some (Inl e, s1)
      | Some (Inr response, s1) \<Rightarrow> probe_loop rest s1)"

fun read_loop :: "nat list \<Rightarrow> int list \<Rightarrow> int list action" where
  "read_loop [] buffer s = Some (Inr buffer, s)"
| "read_loop (i # rest) buffer s =
     (case send_command 5 (replicate 4 0x00) (int i * 4) s of
        None \<Rightarrow> None
      | Some (Inl e, s1) \<Rightarrow> Some (Inl e, s1)
      | Some (Inr response, s1) \<Rightarrow> read_loop rest (buffer @ response) s1)"

definition load_config :: "unit action" where
  "load_config =
     and_then (send_command 1 [] 0) (\<lambda>_.
     and_then (probe_loop [0..<9]) (\<lambda>_.
     and_then (send_command 3 [0x00] 36) (\<lambda>_.
     and_then (send_command 2 [] 0) (\<lambda>_.
     and_then (read_loop [0..<12] []) (\<lambda>buffer.
     (\<lambda>s. Some (Inr (), s\<lparr>config_needs_update := False, config := PyList buffer\<rparr>)))))))"

subsection \<open>The field setters\<close>

text \<open>\<^verbatim>\<open>if not self.config: self.load_config()\<close>, the first statement of every setter.\<close>

definition ensure_config :: "unit action" where
  "ensure_config s = (if blob_items (config s) = [] then load_config s else Some (Inr (), s))"

text \<open>\<^verbatim>\<open>self.config[i] = v\<close>.\<close>

definition config_setitem :: "nat \<Rightarrow> int \<Rightarrow> unit action" where
  "config_setitem i v s =
     (case blob_setitem (config s) i v of
        Inl e \<Rightarrow> Some (Inl e, s)
      | Inr c \<Rightarrow> Some (Inr (), s\<lparr>config := c\<rparr>))"

definition mark_dirty :: "unit action" where
  "mark_dirty s = Some (Inr (), s\<lparr>config_needs_update := True\<rparr>)"

text \<open>
  \<^verbatim>\<open>datetime.datetime.now()\<close> is an input of \<^verbatim>\<open>set_datetime\<close>: the fields that the
  method reads (\<open>dt_second\<close> for \<^verbatim>\<open>now.second\<close> and so on), and the value of
  \<^verbatim>\<open>now.isoweekday()\<close>.
\<close>

record datetime =
  dt_year :: int
  dt_month :: int
  dt_day :: int
  dt_hour :: int
  dt_minute :: int
  dt_second :: int
  dt_isoweekday :: int

definition set_datetime :: "datetime \<Rightarrow> unit action" where
  "set_datetime now =
     and_then ensure_config (\<lambda>_.
     and_then (raise_or (int_to_bcd (dt_second now))) (\<lambda>v0.
     and_then (config_setitem DATE_OFFSET v0) (\<lambda>_.
     and_then (raise_or (int_to_bcd (dt_minute now))) (\<lambda>v1.
     and_then (config_setitem (DATE_OFFSET + 1) v1) (\<lambda>_.
     and_then (raise_or (int_to_bcd (dt_hour now))) (\<lambda>v2.
     and_then (config_setitem (DATE_OFFSET + 2) v2) (\<lambda>_.
     and_then (config_setitem (DATE_OFFSET + 3) (dt_isoweekday now)) (\<lambda>_.
     and_then (raise_or (int_to_bcd (dt_day now))) (\<lambda>v4.
     and_then (config_setitem (DATE_OFFSET + 4) v4) (\<lambda>_.
     and_then (raise_or (int_to_bcd (dt_month now))) (\<lambda>v5.
     and_then (config_setitem (DATE_OFFSET + 5) v5) (\<lambda>_.
     and_then (raise_or (int_to_bcd (dt_year now - 2000))) (\<lambda>v6.
     and_then (config_setitem (DATE_OFFSET + 6) v6) (\<lambda>_.
     mark_dirty))))))))))))))"

definition set_animation_delay :: "int \<Rightarrow> unit action" where
  "set_animation_delay ms0 =
     and_then ensure_config (\<lambda>_.
     (let ms = max 60 (min ms0 0xffff) in
      and_then (config_setitem DELAY_OFFSET (ms AND 0xff)) (\<lambda>_.
      and_then (config_setitem (DELAY_OFFSET + 1) (drop_bit 8 ms AND 0xff)) (\<lambda>_.
      mark_dirty))))"

definition set_frame_count :: "int \<Rightarrow> int \<Rightarrow> unit action" where
  "set_frame_count first_count second_count =
     and_then ensure_config (\<lambda>_.
     and_then (config_setitem FRAMES_1_OFFSET first_count) (\<lambda>_.
     and_then (config_setitem FRAMES_2_OFFSET second_count) (\<lambda>_.
     mark_dirty)))"

subsection \<open>update_config\<close>

definition update_config :: "unit action" where
  "update_config s =
     (if \<not> config_needs_update s then Some (Inr (), s)
      else
        (and_then (send_command 1 [] 0) (\<lambda>_.
         and_then (\<lambda>s1. send_command 6 (blob_items (config s1)) 0 s1) (\<lambda>_.
         and_then (send_command 2 [] 0) (\<lambda>_.
         (\<lambda>s3. Some (Inr (), s3\<lparr>config_needs_update := False\<rparr>))))) s))"

subsection \<open>upload_frames\<close>






subsection \<open>reset\<close>

definition factory_config :: "int list" where
  "factory_config =
     [0x00, 0x08, 0x09, 0x02, 0x00, 0x01, 0xff, 0xff, 0xff, 0x00, 0x00, 0x00,
      0x00, 0x00, 0x00, 0x00, 0x00, 0x00, 0x00, 0x00, 0xff, 0x00, 0x00, 0x00,
      0x00, 0x00, 0x00, 0xff, 0x00, 0x09, 0x02, 0xff, 0x00, 0x00, 0x01, 0x55,
      0x43, 0x15, 0x02, 0x14, 0x10, 0x25, 0x00, 0x2c, 0x01, 0x00, 0x04, 0x00]"

definition reset :: "datetime \<Rightarrow> unit action" where
  "reset now =
     and_then (\<lambda>s. Some (Inr (), s\<lparr>config := PyBytearray factory_config,
                                      config_needs_update := True\<rparr>)) (\<lambda>_.
     and_then (set_datetime now) (\<lambda>_.
     and_then (set_animation_delay DEFAULT_ANIMATION_DELAY_MS) (\<lambda>_.
     and_then (set_frame_count 0 0) (\<lambda>_.
     and_then update_config (\<lambda>_.
     and_then (send_command 0x23 [] 0) (\<lambda>_.
     and_then (send_command 1 [] 0) (\<lambda>_.
     and_then (send_command 2 [] 0) (\<lambda>_.
     done_with ()))))))))"

section \<open>Notions used to state the properties\<close>

text \<open>
  A read ends the reception loop of a request when it times out or when it brings a
  response with the first three bytes of the request; \<open>outcome\<close> is what the loop then
  hands back. \<open>consume n\<close> is the keyboard after \<open>n\<close> reads, and \<open>logged bs\<close> the keyboard
  after the packets \<open>bs\<close> were written.
\<close>

definition answers :: "int list \<Rightarrow> read_result \<Rightarrow> bool" where
  "answers buffer ev =
     (case ev of Timeout \<Rightarrow> True | Response response \<Rightarrow> take 3 response = take 3 buffer)"

definition outcome :: "read_result \<Rightarrow> error + int list" where
  "outcome ev =
     (case ev of Timeout \<Rightarrow> Inl USBTimeoutError | Response response \<Rightarrow> Inr (drop 4 response))"

definition consume :: "nat \<Rightarrow> keyboard \<Rightarrow> keyboard" where
  "consume n s = s\<lparr>usb := (usb s)\<lparr>incoming := sdrop n (incoming (usb s))\<rparr>\<rparr>"

definition logged :: "int list list \<Rightarrow> keyboard \<Rightarrow> keyboard" where
  "logged bs s = s\<lparr>usb := (usb s)\<lparr>written := written (usb s) @ bs\<rparr>\<rparr>"

text \<open>
  \<open>only_changes S s s1\<close>: from \<open>s\<close> to \<open>s1\<close> the transport is untouched and the blob, a list
  before and after, keeps its length and every entry outside \<open>S\<close>. \<open>within S m\<close>: run on a
  keyboard whose blob is a list that has the positions \<open>S\<close>, the action \<open>m\<close> comes back,
  normally or with an exception, having changed the blob at positions in \<open>S\<close> only.
\<close>

definition only_changes :: "nat set \<Rightarrow> keyboard \<Rightarrow> keyboard \<Rightarrow> bool" where
  "only_changes S s s1 \<longleftrightarrow>
     usb s1 = usb s
     \<and> (\<exists>bs bs1. config s = PyList bs \<and> config s1 = PyList bs1 \<and> length bs1 = length bs
            \<and> (\<forall>i<length bs. i \<notin> S \<longrightarrow> bs1 ! i = bs ! i))"

definition within :: "nat set \<Rightarrow> 'a action \<Rightarrow> bool" where
  "within S m \<longleftrightarrow>
     (\<forall>s bs. config s = PyList bs \<and> (\<forall>i\<in>S. i < length bs)
        \<longrightarrow> (\<exists>r s1. m s = Some (r, s1) \<and> only_changes S s s1))"



definition echo :: "int list \<Rightarrow> read_result" where
  "echo buffer = Response (take 3 buffer @ [0, 0, 0, 0, 0])"

text \<open>The packets of \<^verbatim>\<open>load_config\<close>.\<close>

definition load_packets :: "int list list" where
  "load_packets =
     [request_buffer 1 [] 0]
     @ map (\<lambda>i. request_buffer 3 (replicate 4 0) (int i * 4)) [0..<9]
     @ [request_buffer 3 [0] 36, request_buffer 2 [] 0]
     @ map (\<lambda>i. request_buffer 5 (replicate 4 0) (int i * 4)) [0..<12]"

section \<open>Sample inputs\<close>

text \<open>A frame of the display's size in which every pixel is \<open>(8, 4, 8)\<close>.\<close>

definition dim_frame :: "pixel list" where
  "dim_frame = replicate 32400 (8, 4, 8)"

text \<open>
  A keyboard whose device first sends an unrelated packet and then the response to
  \<^verbatim>\<open>send_command(5, [0, 0, 0, 0], 8)\<close>, whose request has the header \<open>04 11 00\<close>; every
  later read times out.
\<close>

definition probe_keyboard :: keyboard where
  "probe_keyboard = Keyboard_init
     \<lparr>written = [],
      incoming = Response [1, 2, 3] ## Response [4, 17, 0, 0, 222, 173, 190, 239] ## sconst Timeout\<rparr>"

text \<open>
  A keyboard whose device keeps sending an unrelated 8-byte packet, and one whose device
  lets a read time out before it sends the response.
\<close>

definition chatty_keyboard :: keyboard where
  "chatty_keyboard = Keyboard_init
     \<lparr>written = [], incoming = sconst (Response [0, 0, 0, 0, 0, 0, 0, 0])\<rparr>"

definition stalling_keyboard :: keyboard where
  "stalling_keyboard = Keyboard_init
     \<lparr>written = [],
      incoming = Response [1, 2, 3] ## Timeout ## Response [4, 17, 0, 0, 222, 173, 190, 239] ## sconst Timeout\<rparr>"



definition loaded_keyboard :: keyboard where
  "loaded_keyboard =
     \<lparr>usb = \<lparr>written =
               [request_buffer 1 [] 0]
               @ map (request_buffer 3 [0, 0, 0, 0]) [0, 4, 8, 12, 16, 20, 24, 28, 32]
               @ [request_buffer 3 [0] 36, request_buffer 2 [] 0]
               @ map (request_buffer 5 [0, 0, 0, 0]) [0, 4, 8, 12, 16, 20, 24, 28, 32, 36, 40, 44],
             incoming = sconst Timeout\<rparr>,
      config = PyList factory_config,
      config_needs_update = False\<rparr>"

text \<open>A value of \<^verbatim>\<open>datetime.datetime.now()\<close>: Wednesday 2026-11-04, 12:34:56.\<close>

definition sample_now :: datetime where
  "sample_now = \<lparr>dt_year = 2026, dt_month = 11, dt_day = 4, dt_hour = 12, dt_minute = 34,
                  dt_second = 56, dt_isoweekday = 3\<rparr>"



text \<open>
  A keyboard just connected, on a device that answers the six commands that
  \<^verbatim>\<open>reset\<close> issues at the time \<open>sample_now\<close>; the blob that this \<^verbatim>\<open>reset\<close> writes back; and
  the keyboard that the call leaves, which holds that blob as a \<^verbatim>\<open>bytearray\<close>.
\<close>

definition reset_config :: "int list" where
  "reset_config =
     [0x00, 0x08, 0x09, 0x02, 0x00, 0x01, 0xff, 0xff, 0xff, 0x00, 0x00, 0x00,
      0x00, 0x00, 0x00, 0x00, 0x00, 0x00, 0x00, 0x00, 0xff, 0x00, 0x00, 0x00,
      0x00, 0x00, 0x00, 0xff, 0x00, 0x09, 0x02, 0xff, 0x00, 0x00, 0x00, 0x56,
      0x34, 0x12, 0x03, 0x04, 0x11, 0x26, 0x00, 0x64, 0x00, 0x00, 0x00, 0x00]"

definition unboxed_keyboard :: keyboard where
  "unboxed_keyboard = Keyboard_init
     \<lparr>written = [],
      incoming = Response [4, 1, 0, 0] ## Response [4, 141, 7, 0] ## Response [4, 2, 0, 0]
                   ## Response [4, 35, 0, 0] ## Response [4, 1, 0, 0] ## Response [4, 2, 0, 0]
                   ## sconst Timeout\<rparr>"

definition reset_keyboard :: keyboard where
  "reset_keyboard =
     \<lparr>usb = \<lparr>written = [request_buffer 1 [] 0, request_buffer 6 reset_config 0,
                        request_buffer 2 [] 0, request_buffer 0x23 [] 0,
                        request_buffer 1 [] 0, request_buffer 2 [] 0],
             incoming = sconst Timeout\<rparr>,
      config = PyBytearray reset_config,
      config_needs_update = False\<rparr>"

section \<open>Bit operations on Python integers\<close>

lemma and_mask_mod: "(x::int) AND mask n = x mod 2 ^ n"
  by (simp add: take_bit_eq_mask [symmetric] take_bit_eq_mod)

lemma and_0xff: "(x::int) AND 0xff = x mod 256"
  using and_mask_mod [of x 8] by (simp add: mask_eq_exp_minus_1)

lemma and_0x1f: "(x::int) AND 0x1F = x mod 32"
  using and_mask_mod [of x 5] by (simp add: mask_eq_exp_minus_1)

lemma and_0x3f: "(x::int) AND 0x3F = x mod 64"
  using and_mask_mod [of x 6] by (simp add: mask_eq_exp_minus_1)

lemma push_bit_or_low:
  fixes a b :: int
  assumes "0 \<le> b" "b < 2 ^ n"
  shows "push_bit n a OR b = a * 2 ^ n + b"
proof -
  have "take_bit n b = b"
    using assms by (simp add: take_bit_int_eq_self)
  then have "push_bit n a OR b = concat_bit n b a"
    by (simp add: concat_bit_def or.commute)
  also have "\<dots> = take_bit n b + push_bit n a"
    by (rule concat_bit_eq)
  finally show ?thesis
    using \<open>take_bit n b = b\<close> by (simp add: push_bit_eq_mult)
qed

section \<open>Properties of the BCD encoder\<close>

lemma bcd_value:
  fixes n :: int
  shows "push_bit 4 (n div 10) OR (n mod 10) = 16 * (n div 10) + n mod 10"
  using push_bit_or_low [of "n mod 10" 4 "n div 10"] by simp

text \<open>
  Claim C7. For every \<open>n\<close> from 0 to 99 the BCD encoder returns
  \<open>(n div 10) << 4 | (n mod 10)\<close>, the tens in the high nibble and the units in the low
  one; for every other \<open>n\<close> it raises ValueError (the specification's InvalidArgument),
  and it raises in no other case. In particular 0, 59 and 99 give \<open>0x00\<close>, \<open>0x59\<close> and
  \<open>0x99\<close>, and 100 and -1 are rejected.
\<close>

theorem int_to_bcd_range:
  "(0 \<le> n \<and> n \<le> 99 \<longrightarrow>
      int_to_bcd n = Inr (push_bit 4 (n div 10) OR (n mod 10))
      \<and> int_to_bcd n = Inr (16 * (n div 10) + n mod 10))
   \<and> (n < 0 \<or> 99 < n \<longrightarrow> (\<exists>msg. int_to_bcd n = Inl (ValueError msg)))
   \<and> ((\<exists>e. int_to_bcd n = Inl e) \<longleftrightarrow> n < 0 \<or> 99 < n)
   \<and> int_to_bcd 0 = Inr 0x00 \<and> int_to_bcd 59 = Inr 0x59 \<and> int_to_bcd 99 = Inr 0x99
   \<and> (\<exists>msg. int_to_bcd 100 = Inl (ValueError msg))
   \<and> (\<exists>msg. int_to_bcd (- 1) = Inl (ValueError msg))"
proof -
  have in_range: "int_to_bcd n = Inr (push_bit 4 (n div 10) OR (n mod 10))"
    if "0 \<le> n" "n \<le> 99"
    using that by (simp add: int_to_bcd_def)
  have out_of_range: "\<exists>msg. int_to_bcd n = Inl (ValueError msg)" if "n < 0 \<or> 99 < n"
    using that by (auto simp: int_to_bcd_def)
  have iff: "(\<exists>e. int_to_bcd n = Inl e) \<longleftrightarrow> n < 0 \<or> 99 < n"
    by (auto simp: int_to_bcd_def)
  have samples: "int_to_bcd 0 = Inr 0x00" "int_to_bcd 59 = Inr 0x59" "int_to_bcd 99 = Inr 0x99"
    "\<exists>msg. int_to_bcd 100 = Inl (ValueError msg)" "\<exists>msg. int_to_bcd (- 1) = Inl (ValueError msg)"
    by (simp_all add: int_to_bcd_def)
  from in_range out_of_range iff samples show ?thesis
    by (simp add: bcd_value)
qed

theorem int_to_bcd_range_witness:
  "(0::int) \<le> 42 \<and> (42::int) \<le> 99 \<and> int_to_bcd 42 = Inr 0x42
   \<and> ((123::int) < 0 \<or> (99::int) < 123) \<and> (\<exists>msg. int_to_bcd 123 = Inl (ValueError msg))"
  using int_to_bcd_range [of 42] int_to_bcd_range [of 123] by simp

section \<open>Properties of the pixel encoding\<close>

lemma rgb565_arith:
  "rgb565 (r, g, b) = 2048 * (r div 8 mod 32) + 32 * (g div 4 mod 64) + b div 8 mod 32"
proof -
  let ?r = "r div 8 mod 32" and ?g = "g div 4 mod 64" and ?b = "b div 8 mod 32"
  have low: "push_bit 5 ?g OR ?b = ?g * 2 ^ 5 + ?b"
    by (rule push_bit_or_low) simp_all
  have "0 \<le> ?g * 2 ^ 5 + ?b"
    by simp
  moreover have "?g * 2 ^ 5 + ?b < 2 ^ 11"
  proof -
    have "?g \<le> 63" "?b \<le> 31"
      using pos_mod_bound [of 64 "g div 4"] pos_mod_bound [of 32 "b div 8"] by simp_all
    then show ?thesis by simp
  qed
  ultimately have "push_bit 11 ?r OR (?g * 2 ^ 5 + ?b) = ?r * 2 ^ 11 + (?g * 2 ^ 5 + ?b)"
    by (rule push_bit_or_low)
  with low show ?thesis
    by (simp add: rgb565_def and_0x1f and_0x3f drop_bit_eq_div)
qed


lemma rgb565_bounds: "0 \<le> rgb565 pixel" "rgb565 pixel < 65536"
proof -
  obtain r g b where p: "pixel = (r, g, b)"
    by (cases pixel) auto
  have "r div 8 mod 32 \<le> 31" "g div 4 mod 64 \<le> 63" "b div 8 mod 32 \<le> 31"
    using pos_mod_bound [of 32 "r div 8"] pos_mod_bound [of 64 "g div 4"]
      pos_mod_bound [of 32 "b div 8"] by simp_all
  moreover have "0 \<le> r div 8 mod 32" "0 \<le> g div 4 mod 64" "0 \<le> b div 8 mod 32"
    by simp_all
  ultimately show "0 \<le> rgb565 pixel" "rgb565 pixel < 65536"
    unfolding p rgb565_arith by linarith+
qed

lemma pixel_hi_div: "pixel_hi pixel = rgb565 pixel div 256"
proof -
  have "0 \<le> rgb565 pixel div 256" "rgb565 pixel div 256 < 256"
    using rgb565_bounds [of pixel] by simp_all
  then show ?thesis
    by (simp add: pixel_hi_def and_0xff drop_bit_eq_div)
qed

lemma pixel_lo_mod: "pixel_lo pixel = rgb565 pixel mod 256"
  by (simp add: pixel_lo_def and_0xff)

lemma byte_div_mod:
  fixes x :: int
  assumes "0 \<le> x" "x \<le> 255"
  shows "x div 8 mod 32 = x div 8" "x div 4 mod 64 = x div 4"
proof -
  have "x div 8 \<le> 255 div 8" "x div 4 \<le> 255 div 4"
    using assms(2) by (intro zdiv_mono1; simp)+
  then have "x div 8 < 32" "x div 4 < 64"
    by simp_all
  moreover have "0 \<le> x div 8" "0 \<le> x div 4"
    using assms(1) by (simp_all add: pos_imp_zdiv_nonneg_iff)
  ultimately show "x div 8 mod 32 = x div 8" "x div 4 mod 64 = x div 4"
    by (simp_all only: mod_pos_pos_trivial)
qed

lemma byte_drop_bit_mask:
  fixes x :: int
  assumes "0 \<le> x" "x \<le> 255"
  shows "drop_bit 3 x AND 0x1F = drop_bit 3 x" "drop_bit 2 x AND 0x3F = drop_bit 2 x"
proof -
  have "drop_bit 3 x = x div 8" "drop_bit 2 x = x div 4"
    by (simp_all add: drop_bit_eq_div)
  then show "drop_bit 3 x AND 0x1F = drop_bit 3 x" "drop_bit 2 x AND 0x3F = drop_bit 2 x"
    using byte_div_mod [OF assms] by (simp_all only: and_0x1f and_0x3f)
qed

lemma rgb565_of_bytes:
  assumes "0 \<le> r" "r \<le> 255" "0 \<le> g" "g \<le> 255" "0 \<le> b" "b \<le> 255"
  shows "rgb565 (r, g, b) = push_bit 11 (drop_bit 3 r) OR push_bit 5 (drop_bit 2 g) OR drop_bit 3 b"
  using assms by (simp only: rgb565_def prod.case Let_def byte_drop_bit_mask)

section \<open>Properties of the frame encoder\<close>

lemma frame_size_eq: "frame_size = 65536"
  by (simp add: frame_size_def DISPLAY_WIDTH_def DISPLAY_HEIGHT_def)

lemma take_two_updates:
  assumes "Suc n < length xs"
  shows "take (Suc (Suc n)) (xs[n := a, Suc n := b]) = take n xs @ [a, b]"
  using assms by (simp add: take_Suc_conv_app_nth)

lemma encode_loop_closed:
  assumes "2 * (idx + length frame) \<le> length frame_buffer"
  shows "encode_loop idx frame frame_buffer
     = Inr (take (2 * idx) frame_buffer
            @ concat (map (\<lambda>pixel. [pixel_hi pixel, pixel_lo pixel]) frame)
            @ drop (2 * (idx + length frame)) frame_buffer)"
  using assms
proof (induction frame arbitrary: idx frame_buffer)
  case Nil
  then show ?case by simp
next
  case (Cons pixel rest)
  let ?buf = "frame_buffer[idx * 2 := pixel_hi pixel, idx * 2 + 1 := pixel_lo pixel]"
  have room: "Suc (idx * 2) < length frame_buffer"
    using Cons.prems by simp
  have "encode_loop idx (pixel # rest) frame_buffer = encode_loop (Suc idx) rest ?buf"
    using room by (simp add: Let_def)
  also have "\<dots> = Inr (take (2 * Suc idx) ?buf
            @ concat (map (\<lambda>pixel. [pixel_hi pixel, pixel_lo pixel]) rest)
            @ drop (2 * (Suc idx + length rest)) ?buf)"
    using Cons.prems by (intro Cons.IH) simp
  also have "take (2 * Suc idx) ?buf = take (2 * idx) frame_buffer @ [pixel_hi pixel, pixel_lo pixel]"
    using take_two_updates [OF room] by (simp add: mult.commute)
  also have "drop (2 * (Suc idx + length rest)) ?buf = drop (2 * (idx + length (pixel # rest))) frame_buffer"
    by simp
  finally show ?case by simp
qed

lemma encode_frame_closed:
  assumes "length frame \<le> 32768"
  shows "encode_frame frame
     = Inr (concat (map (\<lambda>pixel. [pixel_hi pixel, pixel_lo pixel]) frame)
            @ replicate (65536 - 2 * length frame) 0)"
  using assms by (simp add: encode_frame_def frame_size_eq encode_loop_closed)

lemma length_concat_pairs:
  "length (concat (map (\<lambda>x. [f x, g x]) xs)) = 2 * length xs"
  by (induction xs) simp_all

lemma nth_concat_pairs:
  assumes "i < length xs"
  shows "concat (map (\<lambda>x. [f x, g x]) xs) ! (2 * i) = f (xs ! i)"
    and "concat (map (\<lambda>x. [f x, g x]) xs) ! (2 * i + 1) = g (xs ! i)"
  using assms
proof (induction xs arbitrary: i)
  case Nil
  case 1 then show ?case by simp
  case 2 then show ?case by simp
next
  case (Cons x xs)
  case 1 then show ?case using Cons.IH(1) by (cases i) simp_all
  case 2 then show ?case using Cons.IH(2) by (cases i) simp_all
qed


lemma encode_frame_single:
  "encode_frame [pixel] = Inr ([pixel_hi pixel, pixel_lo pixel] @ replicate 65534 0)"
  by (simp add: encode_frame_closed)

text \<open>
  Claim C6, as the code has it. White is encoded as \<open>0xFFFF\<close> and black as \<open>0x0000\<close>. The
  pixel \<open>(8, 4, 8)\<close> is encoded as \<open>0x0821\<close>, sent as the bytes \<open>0x08\<close>, \<open>0x21\<close>: 8 and 4 are
  the lowest values of a 5-bit and of a 6-bit channel that survive. The low three bits of
  red and blue and the low two bits of green are dropped, not rounded, so \<open>(7, 3, 7)\<close> is
  the brightest pixel encoded as \<open>0x0000\<close>.
\<close>

theorem rgb565_truncates:
  "rgb565 (255, 255, 255) = 0xFFFF
   \<and> rgb565 (0, 0, 0) = 0x0000
   \<and> rgb565 (8, 4, 8) = 0x0821
   \<and> rgb565 (7, 3, 7) = 0x0000
   \<and> rgb565 (r, g, b) = 2048 * (r div 8 mod 32) + 32 * (g div 4 mod 64) + b div 8 mod 32
   \<and> encode_frame [(255, 255, 255)] = Inr ([0xFF, 0xFF] @ replicate 65534 0)
   \<and> encode_frame [(0, 0, 0)] = Inr ([0x00, 0x00] @ replicate 65534 0)
   \<and> encode_frame [(8, 4, 8)] = Inr ([0x08, 0x21] @ replicate 65534 0)
   \<and> encode_frame [(7, 3, 7)] = Inr ([0x00, 0x00] @ replicate 65534 0)"
proof -
  have samples: "rgb565 (255, 255, 255) = 0xFFFF" "rgb565 (0, 0, 0) = 0x0000"
    "rgb565 (8, 4, 8) = 0x0821" "rgb565 (7, 3, 7) = 0x0000"
    by (simp_all add: rgb565_def)
  then have bytes:
    "pixel_hi (255, 255, 255) = 0xFF" "pixel_lo (255, 255, 255) = 0xFF"
    "pixel_hi (0, 0, 0) = 0" "pixel_lo (0, 0, 0) = 0"
    "pixel_hi (8, 4, 8) = 0x08" "pixel_lo (8, 4, 8) = 0x21"
    "pixel_hi (7, 3, 7) = 0" "pixel_lo (7, 3, 7) = 0"
    by (simp_all add: pixel_hi_div pixel_lo_mod)
  show ?thesis
    using samples bytes rgb565_arith [of r g b] by (simp only: encode_frame_single simp_thms)
qed

text \<open>The claim as it is written asks for \<open>0x0000\<close> at \<open>(8, 4, 8)\<close>.\<close>

theorem rgb565_8_4_8_counterexample:
  "\<not> (rgb565 (255, 255, 255) = 0xFFFF \<and> rgb565 (0, 0, 0) = 0x0000 \<and> rgb565 (8, 4, 8) = 0x0000)"
  by (simp add: rgb565_def)

text \<open>
  Claim C2. For a frame of exactly 240 x 135 pixels with 8-bit channels,
  \<^verbatim>\<open>encode_frame\<close> returns a buffer of \<open>ceil(W*H*2 / 0x8000) * 0x8000\<close> bytes, a multiple
  of 32 KiB; byte \<open>2i\<close> is the high byte and byte \<open>2i+1\<close> the low byte of
  \<open>(r>>3)<<11 | (g>>2)<<5 | (b>>3)\<close> for pixel \<open>i\<close>, and every byte from \<open>2*W*H\<close> on is zero.
\<close>

theorem encode_frame_layout:
  fixes frame :: "pixel list"
  assumes "length frame = nat (DISPLAY_WIDTH * DISPLAY_HEIGHT)"
    and "\<forall>(r, g, b) \<in> set frame. 0 \<le> r \<and> r \<le> 255 \<and> 0 \<le> g \<and> g \<le> 255 \<and> 0 \<le> b \<and> b \<le> 255"
  shows "\<exists>buf. encode_frame frame = Inr buf
     \<and> int (length buf) = (DISPLAY_WIDTH * DISPLAY_HEIGHT * 2 + 0x8000 - 1) div 0x8000 * 0x8000
     \<and> 0x8000 dvd length buf
     \<and> 2 * length frame \<le> length buf
     \<and> (\<forall>i < length frame.
           case frame ! i of (r, g, b) \<Rightarrow>
             let v = push_bit 11 (drop_bit 3 r) OR push_bit 5 (drop_bit 2 g) OR drop_bit 3 b
             in 0 \<le> v \<and> v < 65536 \<and> buf ! (2 * i) = v div 256 \<and> buf ! (2 * i + 1) = v mod 256)
     \<and> (\<forall>j. 2 * length frame \<le> j \<and> j < length buf \<longrightarrow> buf ! j = 0)"
proof -
  let ?body = "concat (map (\<lambda>pixel. [pixel_hi pixel, pixel_lo pixel]) frame)"
  let ?buf = "?body @ replicate (65536 - 2 * length frame) 0"
  have len: "length frame = 32400"
    using assms(1) by (simp add: DISPLAY_WIDTH_def DISPLAY_HEIGHT_def)
  have body: "length ?body = 64800"
    by (simp add: length_concat_pairs len)
  have enc: "encode_frame frame = Inr ?buf"
    by (rule encode_frame_closed) (simp add: len)
  have size: "length ?buf = 65536"
    by (simp add: body len)
  have pixels: "case frame ! i of (r, g, b) \<Rightarrow>
             let v = push_bit 11 (drop_bit 3 r) OR push_bit 5 (drop_bit 2 g) OR drop_bit 3 b
             in 0 \<le> v \<and> v < 65536 \<and> ?buf ! (2 * i) = v div 256 \<and> ?buf ! (2 * i + 1) = v mod 256"
    if i: "i < length frame" for i
  proof -
    obtain r g b where p: "frame ! i = (r, g, b)"
      by (cases "frame ! i") auto
    have "(r, g, b) \<in> set frame"
      using i p by (metis nth_mem)
    with assms(2) have "0 \<le> r" "r \<le> 255" "0 \<le> g" "g \<le> 255" "0 \<le> b" "b \<le> 255"
      by auto
    then have v: "rgb565 (r, g, b) = push_bit 11 (drop_bit 3 r) OR push_bit 5 (drop_bit 2 g) OR drop_bit 3 b"
      by (rule rgb565_of_bytes)
    have "2 * i < length ?body" "2 * i + 1 < length ?body"
      using i by (simp_all add: length_concat_pairs)
    then have "?buf ! (2 * i) = ?body ! (2 * i)" "?buf ! (2 * i + 1) = ?body ! (2 * i + 1)"
      by (simp_all only: nth_append if_True)
    then have "?buf ! (2 * i) = rgb565 (r, g, b) div 256" "?buf ! (2 * i + 1) = rgb565 (r, g, b) mod 256"
      using nth_concat_pairs [OF i, of pixel_hi pixel_lo] p
      by (simp_all add: pixel_hi_div pixel_lo_mod)
    then show ?thesis
      using rgb565_bounds [of "(r, g, b)"] unfolding p v by (simp add: Let_def)
  qed
  have padding: "?buf ! j = 0" if "2 * length frame \<le> j" "j < length ?buf" for j
    using that by (simp add: nth_append length_concat_pairs)
  have ceil: "int (length ?buf) = (DISPLAY_WIDTH * DISPLAY_HEIGHT * 2 + 0x8000 - 1) div 0x8000 * 0x8000"
    unfolding size by (simp add: DISPLAY_WIDTH_def DISPLAY_HEIGHT_def)
  have mult: "0x8000 dvd length ?buf"
    unfolding size by simp
  have fits: "2 * length frame \<le> length ?buf"
    unfolding size by (simp add: len)
  show ?thesis
  proof (rule exI [of _ ?buf], intro conjI allI impI)
    show "encode_frame frame = Inr ?buf" by (rule enc)
    show "int (length ?buf) = (DISPLAY_WIDTH * DISPLAY_HEIGHT * 2 + 0x8000 - 1) div 0x8000 * 0x8000"
      by (rule ceil)
    show "0x8000 dvd length ?buf" by (rule mult)
    show "2 * length frame \<le> length ?buf" by (rule fits)
    show "case frame ! i of (r, g, b) \<Rightarrow>
             let v = push_bit 11 (drop_bit 3 r) OR push_bit 5 (drop_bit 2 g) OR drop_bit 3 b
             in 0 \<le> v \<and> v < 65536 \<and> ?buf ! (2 * i) = v div 256 \<and> ?buf ! (2 * i + 1) = v mod 256"
      if "i < length frame" for i
      using that by (rule pixels)
    show "?buf ! j = 0" if "2 * length frame \<le> j \<and> j < length ?buf" for j
      using that padding by blast
  qed
qed


theorem encode_frame_layout_witness:
  "length dim_frame = nat (DISPLAY_WIDTH * DISPLAY_HEIGHT)
   \<and> set dim_frame = {(8, 4, 8)}
   \<and> (\<exists>buf. encode_frame dim_frame = Inr buf \<and> length buf = 65536
          \<and> buf ! 0 = 0x08 \<and> buf ! 1 = 0x21 \<and> buf ! 64798 = 0x08 \<and> buf ! 64799 = 0x21
          \<and> buf ! 64800 = 0 \<and> buf ! 65535 = 0)"
proof -
  have size: "length dim_frame = nat (DISPLAY_WIDTH * DISPLAY_HEIGHT)"
    by (simp add: dim_frame_def DISPLAY_WIDTH_def DISPLAY_HEIGHT_def)
  have bytes: "\<forall>(r, g, b) \<in> set dim_frame. 0 \<le> r \<and> r \<le> 255 \<and> 0 \<le> g \<and> g \<le> 255 \<and> 0 \<le> b \<and> b \<le> 255"
    by (simp add: dim_frame_def)
  from encode_frame_layout [OF size bytes] obtain buf where enc: "encode_frame dim_frame = Inr buf"
    and len: "int (length buf) = (DISPLAY_WIDTH * DISPLAY_HEIGHT * 2 + 0x8000 - 1) div 0x8000 * 0x8000"
    and pixels: "\<forall>i < length dim_frame.
           case dim_frame ! i of (r, g, b) \<Rightarrow>
             let v = push_bit 11 (drop_bit 3 r) OR push_bit 5 (drop_bit 2 g) OR drop_bit 3 b
             in 0 \<le> v \<and> v < 65536 \<and> buf ! (2 * i) = v div 256 \<and> buf ! (2 * i + 1) = v mod 256"
    and padding: "\<forall>j. 2 * length dim_frame \<le> j \<and> j < length buf \<longrightarrow> buf ! j = 0"
    by blast
  have len': "length buf = 65536"
    using len by (simp add: DISPLAY_WIDTH_def DISPLAY_HEIGHT_def)
  have "buf ! 0 = 0x08 \<and> buf ! 1 = 0x21"
    using pixels [rule_format, of 0] by (simp add: dim_frame_def)
  moreover have "buf ! 64798 = 0x08 \<and> buf ! 64799 = 0x21"
    using pixels [rule_format, of 32399] by (simp add: dim_frame_def)
  moreover have "buf ! 64800 = 0" "buf ! 65535 = 0"
    using padding [rule_format, of 64800] padding [rule_format, of 65535]
    by (simp_all add: len' dim_frame_def)
  moreover have "set dim_frame = {(8, 4, 8)}"
    by (simp add: dim_frame_def)
  ultimately show ?thesis
    using size enc len' by blast
qed

section \<open>Properties of the reception loop\<close>

lemma consume_simps [simp]:
  "written (usb (consume n s)) = written (usb s)"
  "incoming (usb (consume n s)) = sdrop n (incoming (usb s))"
  "config (consume n s) = config s"
  "config_needs_update (consume n s) = config_needs_update s"
  by (simp_all add: consume_def)

lemma logged_simps [simp]:
  "written (usb (logged bs s)) = written (usb s) @ bs"
  "incoming (usb (logged bs s)) = incoming (usb s)"
  "config (logged bs s) = config s"
  "config_needs_update (logged bs s) = config_needs_update s"
  by (simp_all add: logged_def)

text \<open>
  The loop returns at the first read that answers the request: whatever came before is
  discarded, whatever comes after stays unread.
\<close>

lemma await_response_returns:
  assumes "answers buffer (incoming (usb s) !! n)"
    and "\<forall>m<n. \<not> answers buffer (incoming (usb s) !! m)"
  shows "await_response buffer s = Some (outcome (incoming (usb s) !! n), consume (Suc n) s)"
  using assms
proof (induction n arbitrary: s)
  case 0
  then show ?case
    by (subst await_response.simps)
      (simp add: usb_read_def answers_def outcome_def consume_def split: read_result.splits)
next
  case (Suc n)
  let ?s1 = "s\<lparr>usb := (usb s)\<lparr>incoming := stl (incoming (usb s))\<rparr>\<rparr>"
  from Suc.prems(2) have miss: "\<not> answers buffer (shd (incoming (usb s)))"
    by (metis snth.simps(1) zero_less_Suc)
  have "answers buffer (incoming (usb ?s1) !! n)"
    using Suc.prems(1) by simp
  moreover have "\<forall>m<n. \<not> answers buffer (incoming (usb ?s1) !! m)"
    using Suc.prems(2) by auto
  ultimately have "await_response buffer ?s1
      = Some (outcome (incoming (usb ?s1) !! n), consume (Suc n) ?s1)"
    by (rule Suc.IH)
  moreover have "await_response buffer s = await_response buffer ?s1"
    using miss
    by (subst await_response.simps)
      (simp add: usb_read_def answers_def split: read_result.splits)
  ultimately show ?case
    by (simp add: consume_def)
qed

lemma await_response_Some_answers:
  assumes "await_response buffer s = Some y"
  shows "\<exists>n. answers buffer (incoming (usb s) !! n)"
proof (rule await_response.raw_induct
    [where P = "\<lambda>buffer s y. \<exists>n. answers buffer (incoming (usb s) !! n)", OF _ assms])
  fix f buffer s and y :: "(error + int list) \<times> keyboard"
  assume IH: "\<And>b t z. f b t = Some z \<Longrightarrow> \<exists>n. answers b (incoming (usb t) !! n)"
    and eq: "(case usb_read (usb s) of
                (Inl e, dev) \<Rightarrow> Some (Inl e, s\<lparr>usb := dev\<rparr>)
              | (Inr response, dev) \<Rightarrow>
                  if take 3 response = take 3 buffer
                  then Some (Inr (drop 4 response), s\<lparr>usb := dev\<rparr>)
                  else f buffer (s\<lparr>usb := dev\<rparr>)) = Some y"
  show "\<exists>n. answers buffer (incoming (usb s) !! n)"
  proof (cases "answers buffer (shd (incoming (usb s)))")
    case True
    then have "answers buffer (incoming (usb s) !! 0)" by simp
    then show ?thesis by blast
  next
    case False
    then obtain response where r: "shd (incoming (usb s)) = Response response"
      "take 3 response \<noteq> take 3 buffer"
      by (auto simp: answers_def split: read_result.splits)
    with eq have "f buffer (s\<lparr>usb := (usb s)\<lparr>incoming := stl (incoming (usb s))\<rparr>\<rparr>) = Some y"
      by (simp add: usb_read_def)
    then have "\<exists>n. answers buffer (incoming (usb (s\<lparr>usb := (usb s)\<lparr>incoming := stl (incoming (usb s))\<rparr>\<rparr>)) !! n)"
      by (rule IH)
    then obtain n where "answers buffer (stl (incoming (usb s)) !! n)"
      by auto
    then have "answers buffer (incoming (usb s) !! Suc n)" by simp
    then show ?thesis by blast
  qed
qed

lemma await_response_None_iff:
  "await_response buffer s = None \<longleftrightarrow> (\<forall>n. \<not> answers buffer (incoming (usb s) !! n))"
proof
  assume "await_response buffer s = None"
  show "\<forall>n. \<not> answers buffer (incoming (usb s) !! n)"
  proof (rule ccontr)
    assume "\<not> (\<forall>n. \<not> answers buffer (incoming (usb s) !! n))"
    then have ex: "\<exists>n. answers buffer (incoming (usb s) !! n)" by simp
    define k where "k = (LEAST n. answers buffer (incoming (usb s) !! n))"
    have "answers buffer (incoming (usb s) !! k)"
      unfolding k_def using ex by (rule LeastI_ex)
    moreover have "\<forall>m<k. \<not> answers buffer (incoming (usb s) !! m)"
      unfolding k_def using not_less_Least by blast
    ultimately have "await_response buffer s \<noteq> None"
      using await_response_returns by simp
    with \<open>await_response buffer s = None\<close> show False by simp
  qed
next
  assume "\<forall>n. \<not> answers buffer (incoming (usb s) !! n)"
  then show "await_response buffer s = None"
    by (cases "await_response buffer s") (auto dest: await_response_Some_answers)
qed

section \<open>The request frame\<close>

lemma replicate8: "replicate 8 x = [x,x,x,x,x,x,x,x]"
  by (simp add: numeral_eq_Suc)

lemma request_buffer_shape:
  assumes "length data \<le> 56"
  shows "request_buffer command_id data pos =
     (let b5 = pos AND 0xff; b6 = drop_bit 8 pos AND 0xff; b7 = drop_bit 16 pos AND 0xff;
          checksum = command_id + int (length data) + b5 + b6 + b7 + sum_list data
      in [0x04, checksum AND 0xff, drop_bit 8 checksum AND 0xff, command_id, int (length data), b5, b6, b7]
         @ data @ replicate (56 - length data) 0)"
  using assms
  by (simp add: request_buffer_def Let_def take_update_swap replicate8 sum_list_replicate algebra_simps)

lemma length_request_buffer:
  "length data \<le> 56 \<Longrightarrow> length (request_buffer command_id data pos) = 64"
  by (simp add: request_buffer_shape Let_def)

lemma usb_write_request:
  "length data \<le> 56 \<Longrightarrow>
   s\<lparr>usb := usb_write (request_buffer command_id data pos) (usb s)\<rparr>
     = logged [request_buffer command_id data pos] s"
  by (simp add: usb_write_def length_request_buffer logged_def)

lemma send_command_valid:
  assumes "0 < command_id" "command_id \<le> 255" "length data \<le> 56"
  shows "send_command command_id data pos s
     = await_response (request_buffer command_id data pos)
         (logged [request_buffer command_id data pos] s)"
  using assms by (simp add: send_command_def Let_def usb_write_request)

lemma send_command_returns:
  assumes "0 < command_id" "command_id \<le> 255" "length data \<le> 56"
    and "answers (request_buffer command_id data pos) (incoming (usb s) !! n)"
    and "\<forall>m<n. \<not> answers (request_buffer command_id data pos) (incoming (usb s) !! m)"
  shows "send_command command_id data pos s
     = Some (outcome (incoming (usb s) !! n),
             logged [request_buffer command_id data pos] (consume (Suc n) s))"
proof -
  let ?b = "request_buffer command_id data pos"
  have "await_response ?b (logged [?b] s)
      = Some (outcome (incoming (usb (logged [?b] s)) !! n), consume (Suc n) (logged [?b] s))"
    by (rule await_response_returns) (simp_all add: assms)
  then show ?thesis
    by (simp add: send_command_valid assms logged_def consume_def)
qed




lemma little_endian_16:
  fixes x :: int
  shows "(x AND 0xff) + 256 * (drop_bit 8 x AND 0xff) = x mod 65536"
proof -
  have "x mod (256 * 256) = 256 * (x div 256 mod 256) + x mod 256"
    by (rule zmod_zmult2_eq) simp
  then show ?thesis
    by (simp add: and_0xff drop_bit_eq_div)
qed

lemma little_endian_24:
  fixes x :: int
  shows "(x AND 0xff) + 256 * (drop_bit 8 x AND 0xff) + 65536 * (drop_bit 16 x AND 0xff)
     = x mod 2 ^ 24"
proof -
  have "x mod (65536 * 256) = 65536 * (x div 65536 mod 256) + x mod 65536"
    by (rule zmod_zmult2_eq) simp
  moreover have "x mod 65536 = (x AND 0xff) + 256 * (drop_bit 8 x AND 0xff)"
    by (simp only: little_endian_16)
  ultimately show ?thesis
    by (simp add: and_0xff drop_bit_eq_div)
qed

lemma byte_range: "0 \<le> (x::int) AND 0xff" "(x::int) AND 0xff \<le> 255"
  using pos_mod_bound [of 256 x] by (simp_all add: and_0xff)

lemma sum_list_drop_nth:
  fixes xs :: "int list"
  shows "sum_list (drop k xs) = (\<Sum>i = k..<length xs. xs ! i)"
proof (cases "k \<le> length xs")
  case True
  have "sum_list (drop k xs) = (\<Sum>i = 0..<length xs - k. xs ! (i + k))"
    by (simp add: sum_list_sum_nth add.commute)
  also have "\<dots> = (\<Sum>i = 0 + k..<(length xs - k) + k. xs ! i)"
    by (simp only: sum.shift_bounds_nat_ivl)
  finally show ?thesis
    using True by simp
next
  case False
  then show ?thesis by simp
qed

lemma nth_after_eight:
  "([a0, a1, a2, a3, a4, a5, a6, a7] @ xs) ! (8 + m) = xs ! m"
  using nth_append_length_plus [of "[a0, a1, a2, a3, a4, a5, a6, a7]" xs m] by simp

lemma request_buffer_fields:
  fixes command_id pos :: int and data :: "int list"
  assumes "length data \<le> 56"
  defines "f \<equiv> request_buffer command_id data pos"
  shows "length f = 64" "f ! 0 = 0x04" "f ! 3 = command_id" "f ! 4 = int (length data)"
    "f ! 5 = pos AND 0xff" "f ! 6 = drop_bit 8 pos AND 0xff" "f ! 7 = drop_bit 16 pos AND 0xff"
    "f ! 1 = sum_list (drop 3 f) AND 0xff" "f ! 2 = drop_bit 8 (sum_list (drop 3 f)) AND 0xff"
    "\<And>i. i < length data \<Longrightarrow> f ! (8 + i) = data ! i"
    "\<And>i. 8 + length data \<le> i \<Longrightarrow> i < 64 \<Longrightarrow> f ! i = 0"
proof -
  let ?b5 = "pos AND 0xff" and ?b6 = "drop_bit 8 pos AND 0xff" and ?b7 = "drop_bit 16 pos AND 0xff"
  let ?sum = "command_id + int (length data) + ?b5 + ?b6 + ?b7 + sum_list data"
  let ?head = "[0x04, ?sum AND 0xff, drop_bit 8 ?sum AND 0xff, command_id, int (length data),
                ?b5, ?b6, ?b7]"
  have f: "f = ?head @ data @ replicate (56 - length data) 0"
    unfolding f_def using assms(1) by (simp add: request_buffer_shape Let_def)
  have sum: "sum_list (drop 3 f) = ?sum"
    unfolding f by (simp add: sum_list_replicate)
  show "length f = 64"
    unfolding f using assms(1) by simp
  show "f ! 0 = 0x04" "f ! 3 = command_id" "f ! 4 = int (length data)"
    "f ! 5 = ?b5" "f ! 6 = ?b6" "f ! 7 = ?b7"
    unfolding f by simp_all
  show "f ! 1 = sum_list (drop 3 f) AND 0xff" "f ! 2 = drop_bit 8 (sum_list (drop 3 f)) AND 0xff"
    unfolding sum unfolding f by simp_all
  show "f ! (8 + i) = data ! i" if "i < length data" for i
    unfolding f nth_after_eight using that by (simp add: nth_append)
  show "f ! i = 0" if "8 + length data \<le> i" "i < 64" for i
  proof -
    from that(1) obtain k where i: "i = 8 + (length data + k)"
      by (auto simp: le_iff_add add.assoc)
    with that(2) have "k < 56 - length data"
      by simp
    then show ?thesis
      unfolding f i nth_after_eight nth_append_length_plus by simp
  qed
qed

lemma probe_keyboard_written: "written (usb probe_keyboard) = []"
  by (simp add: probe_keyboard_def Keyboard_init_def)

lemma request_buffer_bytes:
  assumes "0 < command_id" "command_id \<le> 255" "length data \<le> 56"
    and "\<forall>x \<in> set data. 0 \<le> x \<and> x \<le> 255"
  shows "\<forall>x \<in> set (request_buffer command_id data pos). 0 \<le> x \<and> x \<le> 255"
proof -
  have "0 \<le> int (length data)" "int (length data) \<le> 255"
    using assms(3) by simp_all
  then show ?thesis
    using assms(1,2,4)
    by (auto simp: request_buffer_shape [OF assms(3)] Let_def byte_range)
qed

lemma await_response_written:
  assumes "await_response buffer s = Some (r, s1)"
  shows "written (usb s1) = written (usb s)"
proof -
  from await_response_Some_answers [OF assms] have ex: "\<exists>n. answers buffer (incoming (usb s) !! n)" .
  define k where "k = (LEAST n. answers buffer (incoming (usb s) !! n))"
  have "answers buffer (incoming (usb s) !! k)"
    unfolding k_def using ex by (rule LeastI_ex)
  moreover have "\<forall>m<k. \<not> answers buffer (incoming (usb s) !! m)"
    unfolding k_def using not_less_Least by blast
  ultimately have "await_response buffer s
      = Some (outcome (incoming (usb s) !! k), consume (Suc k) s)"
    by (rule await_response_returns)
  with assms have "s1 = consume (Suc k) s"
    by simp
  then show ?thesis
    by simp
qed

lemma send_command_None_iff:
  assumes "0 < command_id" "command_id \<le> 255" "length data \<le> 56"
  shows "send_command command_id data pos s = None
     \<longleftrightarrow> (\<forall>n. \<not> answers (request_buffer command_id data pos) (incoming (usb s) !! n))"
  using assms by (simp add: send_command_valid await_response_None_iff)

lemma header_5_8: "take 3 (request_buffer 5 [0, 0, 0, 0] 8) = [4, 17, 0]"
  by (simp add: request_buffer_shape Let_def)

text \<open>
  Claim C1. For a command id from 1 to 255, a payload of at most 56 entries and an
  offset below \<open>2^24\<close> there is one packet \<open>f\<close> such that a call of \<^verbatim>\<open>send_command\<close>, on
  any keyboard and whatever the device does afterwards, is the reception loop started on
  the keyboard whose write log has grown by exactly \<open>f\<close>; a call that comes back, with a
  response or with the exception of a read, has written \<open>f\<close> and nothing else. The packet
  has 64 bytes: byte 0 is \<open>0x04\<close>, byte 3 the command id, byte 4 the payload length, bytes
  5 to 7 the offset in little-endian order, the payload follows from byte 8, all
  remaining bytes are zero, and bytes 1 and 2 hold, in little-endian order, the sum of
  bytes 3 to 63 modulo 65536. When the payload consists of bytes, so does the whole
  packet.
\<close>

theorem send_command_frame:
  assumes "1 \<le> c" "c \<le> 255" "length p \<le> 56" "0 \<le> ofs" "ofs < 2 ^ 24"
  shows "\<exists>f. (\<forall>s. send_command c p ofs s
                  = await_response f (s\<lparr>usb := (usb s)\<lparr>written := written (usb s) @ [f]\<rparr>\<rparr>))
     \<and> (\<forall>s r s1. send_command c p ofs s = Some (r, s1)
            \<longrightarrow> written (usb s1) = written (usb s) @ [f])
     \<and> length f = 64
     \<and> f ! 0 = 0x04
     \<and> f ! 3 = c
     \<and> f ! 4 = int (length p)
     \<and> f ! 5 + 256 * f ! 6 + 65536 * f ! 7 = ofs
     \<and> {f ! 5, f ! 6, f ! 7} \<subseteq> {0..255}
     \<and> (\<forall>i<length p. f ! (8 + i) = p ! i)
     \<and> (\<forall>i. 8 + length p \<le> i \<and> i < 64 \<longrightarrow> f ! i = 0)
     \<and> f ! 1 + 256 * f ! 2 = (\<Sum>i = 3..63. f ! i) mod 65536
     \<and> {f ! 1, f ! 2} \<subseteq> {0..255}
     \<and> ((\<forall>x \<in> set p. 0 \<le> x \<and> x \<le> 255) \<longrightarrow> (\<forall>x \<in> set f. 0 \<le> x \<and> x \<le> 255))"
proof -
  let ?f = "request_buffer c p ofs"
  note fields = request_buffer_fields [OF assms(3), where command_id = c and pos = ofs]
  have valid: "0 < c" "c \<le> 255" "length p \<le> 56"
    using assms(1-3) by simp_all
  have call: "send_command c p ofs s
      = await_response ?f (s\<lparr>usb := (usb s)\<lparr>written := written (usb s) @ [?f]\<rparr>\<rparr>)" for s
    using send_command_valid [OF valid, of ofs s] by (simp add: logged_def)
  have log: "written (usb s1) = written (usb s) @ [?f]"
    if "send_command c p ofs s = Some (r, s1)" for s r s1
    using that await_response_written [of ?f _ r s1] unfolding call by simp
  have "ofs mod 2 ^ 24 = ofs"
    using assms(4,5) by (rule mod_pos_pos_trivial)
  then have offset: "?f ! 5 + 256 * ?f ! 6 + 65536 * ?f ! 7 = ofs"
    by (simp only: fields little_endian_24)
  have offset_bytes: "{?f ! 5, ?f ! 6, ?f ! 7} \<subseteq> {0..255}"
    unfolding fields(5-7) by (simp add: byte_range)
  have "sum_list (drop 3 ?f) = (\<Sum>i = 3..<64. ?f ! i)"
    by (simp add: sum_list_drop_nth fields)
  also have "{3..<64::nat} = {3..63}"
    by auto
  finally have checksum: "?f ! 1 + 256 * ?f ! 2 = (\<Sum>i = 3..63. ?f ! i) mod 65536"
    by (simp only: fields little_endian_16)
  have checksum_bytes: "{?f ! 1, ?f ! 2} \<subseteq> {0..255}"
    unfolding fields(8,9) by (simp add: byte_range)
  show ?thesis
  proof (rule exI [of _ ?f], intro conjI allI impI)
    show "send_command c p ofs s
        = await_response ?f (s\<lparr>usb := (usb s)\<lparr>written := written (usb s) @ [?f]\<rparr>\<rparr>)" for s
      by (rule call)
    show "written (usb s1) = written (usb s) @ [?f]"
      if "send_command c p ofs s = Some (r, s1)" for s r s1
      using that by (rule log)
    show "length ?f = 64" "?f ! 0 = 0x04" "?f ! 3 = c" "?f ! 4 = int (length p)"
      by (rule fields)+
    show "?f ! 5 + 256 * ?f ! 6 + 65536 * ?f ! 7 = ofs" by (rule offset)
    show "{?f ! 5, ?f ! 6, ?f ! 7} \<subseteq> {0..255}" by (rule offset_bytes)
    show "?f ! (8 + i) = p ! i" if "i < length p" for i
      using that by (rule fields)
    show "?f ! i = 0" if "8 + length p \<le> i \<and> i < 64" for i
      using that fields(11) by blast
    show "?f ! 1 + 256 * ?f ! 2 = (\<Sum>i = 3..63. ?f ! i) mod 65536" by (rule checksum)
    show "{?f ! 1, ?f ! 2} \<subseteq> {0..255}" by (rule checksum_bytes)
    show "\<forall>x \<in> set ?f. 0 \<le> x \<and> x \<le> 255" if "\<forall>x \<in> set p. 0 \<le> x \<and> x \<le> 255"
      using assms(1-3) that by (intro request_buffer_bytes) simp_all
  qed
qed

lemma probe_keyboard_run:
  "send_command 5 [0, 0, 0, 0] 8 probe_keyboard
     = Some (Inr [222, 173, 190, 239], logged [request_buffer 5 [0, 0, 0, 0] 8] (consume 2 probe_keyboard))"
proof -
  have b: "take 3 (request_buffer 5 [0, 0, 0, 0] 8) = [4, 17, 0]"
    by (simp add: request_buffer_shape Let_def)
  have "send_command 5 [0, 0, 0, 0] 8 probe_keyboard
     = Some (outcome (incoming (usb probe_keyboard) !! 1),
             logged [request_buffer 5 [0, 0, 0, 0] 8] (consume (Suc 1) probe_keyboard))"
    by (rule send_command_returns)
      (simp_all add: answers_def b probe_keyboard_def Keyboard_init_def)
  then show ?thesis
    by (simp add: outcome_def probe_keyboard_def Keyboard_init_def numeral_2_eq_2)
qed

theorem send_command_frame_witness:
  "send_command 5 [0, 0, 0, 0] 8 probe_keyboard
     = Some (Inr [222, 173, 190, 239], logged [request_buffer 5 [0, 0, 0, 0] 8] (consume 2 probe_keyboard))
   \<and> send_command 5 [0, 0, 0, 0] 8 chatty_keyboard = None
   \<and> (\<exists>f. written (usb (logged [request_buffer 5 [0, 0, 0, 0] 8] (consume 2 probe_keyboard))) = [f]
          \<and> send_command 5 [0, 0, 0, 0] 8 chatty_keyboard
              = await_response f
                  (chatty_keyboard\<lparr>usb := (usb chatty_keyboard)\<lparr>written := [f]\<rparr>\<rparr>)
          \<and> length f = 64 \<and> f ! 0 = 4 \<and> f ! 1 = 17 \<and> f ! 2 = 0 \<and> f ! 3 = 5 \<and> f ! 4 = 4
          \<and> f ! 5 = 8 \<and> f ! 6 = 0 \<and> f ! 7 = 0 \<and> f ! 8 = 0 \<and> f ! 63 = 0)"
proof -
  let ?s1 = "logged [request_buffer 5 [0, 0, 0, 0] 8] (consume 2 probe_keyboard)"
  have never: "send_command 5 [0, 0, 0, 0] 8 chatty_keyboard = None"
    by (simp add: send_command_None_iff answers_def header_5_8 chatty_keyboard_def Keyboard_init_def)
  have range: "(1::int) \<le> 5" "(5::int) \<le> 255" "length [0, 0, 0, 0 :: int] \<le> 56" "(0::int) \<le> 8"
    "(8::int) < 2 ^ 24"
    by simp_all
  from send_command_frame [OF range] obtain f where
    call: "\<forall>s. send_command 5 [0, 0, 0, 0] 8 s
                  = await_response f (s\<lparr>usb := (usb s)\<lparr>written := written (usb s) @ [f]\<rparr>\<rparr>)"
    and log: "\<forall>s r s1. send_command 5 [0, 0, 0, 0] 8 s = Some (r, s1)
            \<longrightarrow> written (usb s1) = written (usb s) @ [f]"
    by (elim exE conjE) (rule that; assumption)
  have "written (usb ?s1) = written (usb probe_keyboard) @ [f]"
    by (rule log [rule_format, OF probe_keyboard_run])
  then have f: "f = request_buffer 5 [0, 0, 0, 0] 8"
    by (simp add: probe_keyboard_written)
  have one: "written (usb ?s1) = [f]"
    unfolding f by (simp add: probe_keyboard_written)
  have "written (usb chatty_keyboard) = []"
    by (simp add: chatty_keyboard_def Keyboard_init_def)
  then have loop: "send_command 5 [0, 0, 0, 0] 8 chatty_keyboard
              = await_response f
                  (chatty_keyboard\<lparr>usb := (usb chatty_keyboard)\<lparr>written := [f]\<rparr>\<rparr>)"
    using call [rule_format, of chatty_keyboard] by simp
  have bytes: "length f = 64 \<and> f ! 0 = 4 \<and> f ! 1 = 17 \<and> f ! 2 = 0 \<and> f ! 3 = 5 \<and> f ! 4 = 4
          \<and> f ! 5 = 8 \<and> f ! 6 = 0 \<and> f ! 7 = 0 \<and> f ! 8 = 0 \<and> f ! 63 = 0"
    unfolding f by (simp add: request_buffer_shape Let_def)
  show ?thesis
    by (intro conjI exI [of _ f], rule probe_keyboard_run, rule never, rule one, rule loop,
        insert bytes, simp_all only: simp_thms)
qed


section \<open>Termination of the reception loop\<close>

text \<open>
  Claim C9, as the code has it. Every read has its own timeout, and the loop never reads
  past a timeout: the first read that times out ends the call with the timeout error, as
  the first matching response ends it with the payload. Non-matching responses are
  discarded without any bound, so the call comes back exactly when some read times out
  or matches; against a device that keeps sending non-matching packets it never does.
\<close>

theorem send_command_reception:
  assumes "0 < c" "c \<le> 255" "length p \<le> 56"
  shows "(send_command c p ofs s = None
            \<longleftrightarrow> (\<forall>n. \<exists>response. incoming (usb s) !! n = Response response
                     \<and> take 3 response \<noteq> take 3 (request_buffer c p ofs)))
     \<and> (\<forall>n. incoming (usb s) !! n = Timeout
              \<and> (\<forall>m<n. \<not> answers (request_buffer c p ofs) (incoming (usb s) !! m))
            \<longrightarrow> send_command c p ofs s
                  = Some (Inl USBTimeoutError, logged [request_buffer c p ofs] (consume (Suc n) s)))
     \<and> (\<forall>n response. incoming (usb s) !! n = Response response
              \<and> take 3 response = take 3 (request_buffer c p ofs)
              \<and> (\<forall>m<n. \<not> answers (request_buffer c p ofs) (incoming (usb s) !! m))
            \<longrightarrow> send_command c p ofs s
                  = Some (Inr (drop 4 response), logged [request_buffer c p ofs] (consume (Suc n) s)))"
proof (intro conjI allI impI)
  have "\<not> answers (request_buffer c p ofs) ev
      \<longleftrightarrow> (\<exists>response. ev = Response response \<and> take 3 response \<noteq> take 3 (request_buffer c p ofs))"
    for ev
    by (cases ev) (simp_all add: answers_def)
  then show "send_command c p ofs s = None
            \<longleftrightarrow> (\<forall>n. \<exists>response. incoming (usb s) !! n = Response response
                     \<and> take 3 response \<noteq> take 3 (request_buffer c p ofs))"
    using send_command_None_iff [OF assms, of ofs s] by simp
next
  fix n
  assume a: "incoming (usb s) !! n = Timeout
              \<and> (\<forall>m<n. \<not> answers (request_buffer c p ofs) (incoming (usb s) !! m))"
  then have "answers (request_buffer c p ofs) (incoming (usb s) !! n)"
    by (simp add: answers_def)
  with a show "send_command c p ofs s
      = Some (Inl USBTimeoutError, logged [request_buffer c p ofs] (consume (Suc n) s))"
    using send_command_returns [OF assms, of ofs s n] by (simp add: outcome_def)
next
  fix n response
  assume a: "incoming (usb s) !! n = Response response
              \<and> take 3 response = take 3 (request_buffer c p ofs)
              \<and> (\<forall>m<n. \<not> answers (request_buffer c p ofs) (incoming (usb s) !! m))"
  then have "answers (request_buffer c p ofs) (incoming (usb s) !! n)"
    by (simp add: answers_def)
  with a show "send_command c p ofs s
      = Some (Inr (drop 4 response), logged [request_buffer c p ofs] (consume (Suc n) s))"
    using send_command_returns [OF assms, of ofs s n] by (simp add: outcome_def)
qed

theorem send_command_reception_witness:
  "send_command 5 [0, 0, 0, 0] 8 stalling_keyboard
     = Some (Inl USBTimeoutError, logged [request_buffer 5 [0, 0, 0, 0] 8] (consume 2 stalling_keyboard))
   \<and> send_command 5 [0, 0, 0, 0] 8 probe_keyboard
     = Some (Inr [222, 173, 190, 239], logged [request_buffer 5 [0, 0, 0, 0] 8] (consume 2 probe_keyboard))
   \<and> send_command 5 [0, 0, 0, 0] 8 chatty_keyboard = None"
proof -
  have valid: "(0::int) < 5" "(5::int) \<le> 255" "length [0, 0, 0, 0 :: int] \<le> 56"
    by simp_all
  note reception = send_command_reception [OF valid, of 8]
  have "send_command 5 [0, 0, 0, 0] 8 stalling_keyboard
     = Some (Inl USBTimeoutError, logged [request_buffer 5 [0, 0, 0, 0] 8] (consume (Suc 1) stalling_keyboard))"
    by (rule reception [of stalling_keyboard, THEN conjunct2, THEN conjunct1, rule_format])
      (simp add: answers_def header_5_8 stalling_keyboard_def Keyboard_init_def)
  moreover have "send_command 5 [0, 0, 0, 0] 8 probe_keyboard
     = Some (Inr (drop 4 [4, 17, 0, 0, 222, 173, 190, 239]),
             logged [request_buffer 5 [0, 0, 0, 0] 8] (consume (Suc 1) probe_keyboard))"
    by (rule reception [of probe_keyboard, THEN conjunct2, THEN conjunct2, rule_format])
      (simp add: answers_def header_5_8 probe_keyboard_def Keyboard_init_def)
  moreover have "send_command 5 [0, 0, 0, 0] 8 chatty_keyboard = None"
    unfolding reception [of chatty_keyboard, THEN conjunct1]
    by (simp add: header_5_8 chatty_keyboard_def Keyboard_init_def)
  ultimately show ?thesis
    by (simp add: numeral_2_eq_2)
qed


text \<open>
  The claim as it is written says that every call comes back. A device that keeps
  sending unrelated packets, each within the timeout of its read, keeps the loop running.
\<close>

theorem send_command_never_returns_counterexample:
  "send_command 1 [] 0 chatty_keyboard = None"
proof -
  have "take 3 (request_buffer 1 [] 0) = [4, 1, 0]"
    by (simp add: request_buffer_shape Let_def)
  then have "\<forall>n. \<not> answers (request_buffer 1 [] 0) (incoming (usb chatty_keyboard) !! n)"
    by (simp add: answers_def chatty_keyboard_def Keyboard_init_def)
  then show ?thesis
    by (simp add: send_command_None_iff)
qed

section \<open>Sequences of commands\<close>


lemma and_then_Inr: "m s = Some (Inr x, s1) \<Longrightarrow> and_then m f s = f x s1"
  by (simp add: and_then_def)

lemma and_then_Inl: "m s = Some (Inl e, s1) \<Longrightarrow> and_then m f s = Some (Inl e, s1)"
  by (simp add: and_then_def)

lemma and_then_None: "m s = None \<Longrightarrow> and_then m f s = None"
  by (simp add: and_then_def)


lemma consume_logged [simp]: "consume n (logged bs s) = logged bs (consume n s)"
proof -
  obtain w i c d where "s = \<lparr>usb = \<lparr>written = w, incoming = i\<rparr>, config = c, config_needs_update = d\<rparr>"
    by (cases s, cases "usb s") auto
  then show ?thesis
    by (simp add: consume_def logged_def)
qed

lemma send_command_step:
  assumes "0 < command_id" "command_id \<le> 255" "length data \<le> 56"
  shows "send_command command_id data pos s =
     (let buffer = request_buffer command_id data pos; s1 = logged [buffer] (consume 1 s)
      in case shd (incoming (usb s)) of
           Timeout \<Rightarrow> Some (Inl USBTimeoutError, s1)
         | Response response \<Rightarrow>
             if take 3 response = take 3 buffer then Some (Inr (drop 4 response), s1)
             else await_response buffer s1)"
  unfolding send_command_valid [OF assms]
  by (subst await_response.simps)
    (simp add: usb_read_def Let_def consume_logged [symmetric] del: consume_logged
      split: read_result.splits, simp add: consume_def logged_def)

lemma request_buffer_header:
  assumes "length data \<le> 56"
  shows "take 3 (request_buffer command_id data pos) =
     (let checksum = command_id + int (length data) + (pos AND 0xff) + (drop_bit 8 pos AND 0xff)
                     + (drop_bit 16 pos AND 0xff) + sum_list data
      in [0x04, checksum AND 0xff, drop_bit 8 checksum AND 0xff])"
  using assms by (simp add: request_buffer_shape Let_def)


lemma logged_logged [simp]: "logged bs (logged cs s) = logged (cs @ bs) s"
  by (simp add: logged_def)

lemma consume_consume [simp]: "consume n (consume m s) = consume (m + n) s"
  by (simp add: consume_def)

text \<open>A command whose response is the next thing the device sends.\<close>

lemma send_command_echo:
  assumes "0 < command_id" "command_id \<le> 255" "length data \<le> 56"
    and "shd (incoming (usb s)) = echo (request_buffer command_id data pos)"
  shows "send_command command_id data pos s
     = Some (Inr [0, 0, 0, 0], logged [request_buffer command_id data pos] (consume 1 s))"
proof -
  have "length (take 3 (request_buffer command_id data pos)) = 3"
    using assms(3) by (simp add: length_request_buffer)
  then show ?thesis
    using assms by (simp add: send_command_step echo_def Let_def)
qed

section \<open>Properties of update_config\<close>

text \<open>
  On a device that answers each of the three commands at once, a write-back of a blob of
  at most 56 bytes returns normally.
\<close>

lemma update_config_answered:
  assumes "config_needs_update s" "length (blob_items (config s)) \<le> 56"
    and "incoming (usb s) = echo (request_buffer 1 [] 0)
           ## echo (request_buffer 6 (blob_items (config s)) 0)
           ## echo (request_buffer 2 [] 0) ## rest"
  shows "update_config s
     = Some (Inr (), (logged [request_buffer 1 [] 0, request_buffer 6 (blob_items (config s)) 0,
                               request_buffer 2 [] 0] (consume 3 s))
                       \<lparr>config_needs_update := False\<rparr>)"
proof -
  let ?t1 = "logged [request_buffer 1 [] 0] (consume 1 s)"
  let ?t2 = "logged [request_buffer 6 (blob_items (config s)) 0] (consume 1 ?t1)"
  let ?t3 = "logged [request_buffer 2 [] 0] (consume 1 ?t2)"
  have c1: "send_command 1 [] 0 s = Some (Inr [0, 0, 0, 0], ?t1)"
    by (rule send_command_echo) (simp_all add: assms(3))
  have c6: "send_command 6 (blob_items (config ?t1)) 0 ?t1 = Some (Inr [0, 0, 0, 0], ?t2)"
    using assms(2) by (simp add: send_command_echo assms(3))
  have c2: "send_command 2 [] 0 ?t2 = Some (Inr [0, 0, 0, 0], ?t3)"
    by (rule send_command_echo) (simp_all add: assms(3))
  have "update_config s = Some (Inr (), ?t3\<lparr>config_needs_update := False\<rparr>)"
    using assms(1) c1 c6 c2 by (simp add: update_config_def and_then_def)
  then show ?thesis
    by (simp add: numeral_3_eq_3)
qed





section \<open>Properties of load_config\<close>








text \<open>On a device that answers each of the 24 commands at once, the call returns normally.\<close>

lemma probe_loop_answered:
  assumes "incoming (usb s)
      = map (\<lambda>i. echo (request_buffer 3 (replicate 4 0) (int i * 4))) is @- rest"
  shows "probe_loop is s
     = Some (Inr (), logged (map (\<lambda>i. request_buffer 3 (replicate 4 0) (int i * 4)) is)
                       (consume (length is) s))"
  using assms
proof (induction "is" arbitrary: s)
  case Nil
  then show ?case by (simp add: logged_def consume_def)
next
  case (Cons i rest_is)
  let ?t = "logged [request_buffer 3 (replicate 4 0) (int i * 4)] (consume 1 s)"
  have cmd: "send_command 3 (replicate 4 0) (int i * 4) s = Some (Inr [0, 0, 0, 0], ?t)"
    by (rule send_command_echo) (simp_all add: Cons.prems)
  have "incoming (usb ?t)
      = map (\<lambda>i. echo (request_buffer 3 (replicate 4 0) (int i * 4))) rest_is @- rest"
    by (simp add: Cons.prems)
  from Cons.IH [OF this] cmd show ?case
    by simp
qed

lemma read_loop_answered:
  assumes "incoming (usb s)
      = map (\<lambda>i. echo (request_buffer 5 (replicate 4 0) (int i * 4))) is @- rest"
  shows "read_loop is buffer s
     = Some (Inr (buffer @ replicate (4 * length is) 0),
             logged (map (\<lambda>i. request_buffer 5 (replicate 4 0) (int i * 4)) is)
               (consume (length is) s))"
  using assms
proof (induction "is" arbitrary: s buffer)
  case Nil
  then show ?case by (simp add: logged_def consume_def)
next
  case (Cons i rest_is)
  let ?t = "logged [request_buffer 5 (replicate 4 0) (int i * 4)] (consume 1 s)"
  have cmd: "send_command 5 (replicate 4 0) (int i * 4) s = Some (Inr [0, 0, 0, 0], ?t)"
    by (rule send_command_echo) (simp_all add: Cons.prems)
  have "incoming (usb ?t)
      = map (\<lambda>i. echo (request_buffer 5 (replicate 4 0) (int i * 4))) rest_is @- rest"
    by (simp add: Cons.prems)
  from Cons.IH [OF this, of "buffer @ [0, 0, 0, 0]"] cmd
  have "read_loop (i # rest_is) buffer s
     = Some (Inr ((buffer @ [0, 0, 0, 0]) @ replicate (4 * length rest_is) 0),
             logged (map (\<lambda>i. request_buffer 5 (replicate 4 0) (int i * 4)) (i # rest_is))
               (consume (length (i # rest_is)) s))"
    by simp
  moreover have "(buffer @ [0, 0, 0, 0]) @ replicate (4 * length rest_is) 0
      = buffer @ replicate (4 * length (i # rest_is)) (0::int)"
    by (simp add: replicate_add [symmetric] numeral_eq_Suc del: replicate_add)
  ultimately show ?case
    by simp
qed


lemma load_config_answered:
  assumes "incoming (usb s) = map echo load_packets @- rest"
  shows "load_config s
     = Some (Inr (), (logged load_packets (consume 24 s))
                       \<lparr>config_needs_update := False, config := PyList (replicate 48 0)\<rparr>)"
proof -
  let ?P = "\<lambda>i. request_buffer 3 (replicate 4 0) (int i * 4)"
  let ?R = "\<lambda>i. request_buffer 5 (replicate 4 0) (int i * 4)"
  let ?reads = "map (\<lambda>i. echo (?R i)) [0..<12] @- rest"
  let ?tail = "echo (request_buffer 3 [0] 36) ## echo (request_buffer 2 [] 0) ## ?reads"
  have inc: "incoming (usb s)
      = echo (request_buffer 1 [] 0) ## (map (\<lambda>i. echo (?P i)) [0..<9] @- ?tail)"
    unfolding assms load_packets_def by (simp add: comp_def)
  let ?t1 = "logged [request_buffer 1 [] 0] (consume 1 s)"
  let ?t2 = "logged (map ?P [0..<9]) (consume (length [0..<9]) ?t1)"
  let ?t3 = "logged [request_buffer 3 [0] 36] (consume 1 ?t2)"
  let ?t4 = "logged [request_buffer 2 [] 0] (consume 1 ?t3)"
  let ?t5 = "logged (map ?R [0..<12]) (consume (length [0..<12]) ?t4)"
  have c1: "send_command 1 [] 0 s = Some (Inr [0, 0, 0, 0], ?t1)"
    by (rule send_command_echo) (simp_all add: inc)
  have inc1: "incoming (usb ?t1) = map (\<lambda>i. echo (?P i)) [0..<9] @- ?tail"
    by (simp add: inc)
  then have probes: "probe_loop [0..<9] ?t1 = Some (Inr (), ?t2)"
    by (rule probe_loop_answered)
  have "incoming (usb ?t2) = sdrop (length [0..<9]) (incoming (usb ?t1))"
    by (simp only: logged_simps consume_simps)
  also have "\<dots> = ?tail"
    unfolding inc1 by (simp add: sdrop_shift)
  finally have inc2: "incoming (usb ?t2) = ?tail" .
  then have c3: "send_command 3 [0] 36 ?t2 = Some (Inr [0, 0, 0, 0], ?t3)"
    by (intro send_command_echo) simp_all
  have "incoming (usb ?t3) = sdrop 1 (incoming (usb ?t2))"
    by (simp only: logged_simps consume_simps)
  then have inc3: "incoming (usb ?t3) = echo (request_buffer 2 [] 0) ## ?reads"
    unfolding inc2 by simp
  then have c2: "send_command 2 [] 0 ?t3 = Some (Inr [0, 0, 0, 0], ?t4)"
    by (intro send_command_echo) simp_all
  have "incoming (usb ?t4) = sdrop 1 (incoming (usb ?t3))"
    by (simp only: logged_simps consume_simps)
  then have "incoming (usb ?t4) = ?reads"
    unfolding inc3 by simp
  then have "read_loop [0..<12] [] ?t4 = Some (Inr ([] @ replicate (4 * length [0..<12]) 0), ?t5)"
    by (rule read_loop_answered)
  then have reads: "read_loop [0..<12] [] ?t4 = Some (Inr (replicate 48 0), ?t5)"
    by simp
  have "load_config s
      = Some (Inr (), ?t5\<lparr>config_needs_update := False, config := PyList (replicate 48 0)\<rparr>)"
    unfolding load_config_def
    by (simp only: and_then_Inr [where m = "send_command 1 [] 0", OF c1]
        and_then_Inr [where m = "probe_loop [0..<9]", OF probes]
        and_then_Inr [where m = "send_command 3 [0] 36", OF c3]
        and_then_Inr [where m = "send_command 2 [] 0", OF c2]
        and_then_Inr [where m = "read_loop [0..<12] []", OF reads])
  moreover have "?t5 = logged load_packets (consume 24 s)"
    by (simp add: load_packets_def)
  ultimately show ?thesis
    by simp
qed






section \<open>Properties of the field setters\<close>

lemma ensure_config_held:
  assumes "blob_items (config s) \<noteq> []"
  shows "ensure_config s = Some (Inr (), s)"
  using assms by (simp add: ensure_config_def)

lemma config_setitem_list:
  assumes "config s = PyList bs" "i < length bs"
  shows "config_setitem i v s = Some (Inr (), s\<lparr>config := PyList (bs[i := v])\<rparr>)"
  using assms by (simp add: config_setitem_def)

lemma set_frame_count_list:
  assumes "config s = PyList bs" "46 < length bs"
  shows "set_frame_count first_count second_count s
     = Some (Inr (), s\<lparr>config := PyList (bs[34 := first_count, 46 := second_count]),
                       config_needs_update := True\<rparr>)"
proof -
  have "blob_items (config s) \<noteq> []"
    using assms by auto
  then show ?thesis
    using assms
    by (simp add: set_frame_count_def and_then_def ensure_config_held config_setitem_list
        mark_dirty_def FRAMES_1_OFFSET_def FRAMES_2_OFFSET_def)
qed

lemma set_animation_delay_list:
  assumes "config s = PyList bs" "44 < length bs"
  shows "set_animation_delay ms s
     = Some (Inr (), s\<lparr>config := PyList (bs[43 := max 60 (min ms 0xffff) AND 0xff,
                                              44 := drop_bit 8 (max 60 (min ms 0xffff)) AND 0xff]),
                       config_needs_update := True\<rparr>)"
proof -
  have "blob_items (config s) \<noteq> []"
    using assms by auto
  then show ?thesis
    using assms
    by (simp add: set_animation_delay_def and_then_def ensure_config_held config_setitem_list
        mark_dirty_def DELAY_OFFSET_def Let_def)
qed


lemma only_changes_refl: "config s = PyList bs \<Longrightarrow> only_changes S s s"
  by (simp add: only_changes_def)

lemma only_changes_trans:
  assumes "only_changes S s s1" "only_changes S s1 s2"
  shows "only_changes S s s2"
  using assms unfolding only_changes_def by auto

lemma within_raise_or: "within S (raise_or r)"
  by (simp add: within_def raise_or_def only_changes_refl)

lemma within_mark_dirty: "within S mark_dirty"
  by (simp add: within_def mark_dirty_def only_changes_def)

lemma within_config_setitem:
  assumes "i \<in> S"
  shows "within S (config_setitem i v)"
proof -
  have "bs[i := v] ! j = bs ! j" if "j \<notin> S" for bs :: "int list" and j
    using assms that by (metis nth_list_update_neq)
  then show ?thesis
    using assms by (auto simp: within_def config_setitem_def only_changes_def)
qed

lemma within_ensure_config:
  assumes "S \<noteq> {}"
  shows "within S ensure_config"
proof -
  have "ensure_config s = Some (Inr (), s) \<and> only_changes S s s"
    if "config s = PyList bs" "\<forall>i\<in>S. i < length bs" for s bs
  proof -
    from assms that(2) have "bs \<noteq> []" by auto
    with that(1) show ?thesis
      by (simp add: ensure_config_held only_changes_refl)
  qed
  then show ?thesis
    unfolding within_def by blast
qed

lemma within_and_then:
  assumes "within S m" "\<And>x. within S (f x)"
  shows "within S (and_then m f)"
  unfolding within_def
proof (intro allI impI)
  fix s :: keyboard and bs
  assume pre: "config s = PyList bs \<and> (\<forall>i\<in>S. i < length bs)"
  with assms(1) obtain r s1 where m: "m s = Some (r, s1)" and c1: "only_changes S s s1"
    unfolding within_def by blast
  show "\<exists>r s2. and_then m f s = Some (r, s2) \<and> only_changes S s s2"
  proof (cases r)
    case (Inl e)
    with m c1 show ?thesis by (auto simp: and_then_def)
  next
    case (Inr x)
    from c1 pre obtain bs1 where "config s1 = PyList bs1" "length bs1 = length bs"
      unfolding only_changes_def by auto
    with pre have "config s1 = PyList bs1 \<and> (\<forall>i\<in>S. i < length bs1)"
      by simp
    with assms(2) [of x] obtain r2 s2 where f: "f x s1 = Some (r2, s2)" and c2: "only_changes S s1 s2"
      unfolding within_def by blast
    from m Inr f have "and_then m f s = Some (r2, s2)"
      by (simp add: and_then_def)
    with only_changes_trans [OF c1 c2] show ?thesis by blast
  qed
qed

lemma within_set_datetime: "within {35..41} (set_datetime now)"
  unfolding set_datetime_def DATE_OFFSET_def
  by (intro within_and_then within_ensure_config within_raise_or within_config_setitem
      within_mark_dirty) simp_all

lemma set_datetime_list:
  assumes "config s = PyList bs" "41 < length bs"
    and "int_to_bcd (dt_second now) = Inr v0" "int_to_bcd (dt_minute now) = Inr v1"
    and "int_to_bcd (dt_hour now) = Inr v2" "int_to_bcd (dt_day now) = Inr v4"
    and "int_to_bcd (dt_month now) = Inr v5" "int_to_bcd (dt_year now - 2000) = Inr v6"
  shows "set_datetime now s
     = Some (Inr (), s\<lparr>config := PyList (bs[35 := v0, 36 := v1, 37 := v2, 38 := dt_isoweekday now,
                                              39 := v4, 40 := v5, 41 := v6]),
                       config_needs_update := True\<rparr>)"
proof -
  have "blob_items (config s) \<noteq> []"
    using assms(1,2) by auto
  then show ?thesis
    using assms
    by (simp add: set_datetime_def and_then_def ensure_config_held config_setitem_list
        raise_or_def mark_dirty_def DATE_OFFSET_def)
qed


lemma clamped_delay_bytes:
  fixes ms :: int
  defines "v \<equiv> max 60 (min ms 0xffff)"
  shows "(v AND 0xff) + 256 * (drop_bit 8 v AND 0xff) = v" "60 \<le> v" "v \<le> 65535"
proof -
  show bounds: "60 \<le> v" "v \<le> 65535"
    by (simp_all add: v_def)
  then have "v mod 65536 = v"
    by simp
  then show "(v AND 0xff) + 256 * (drop_bit 8 v AND 0xff) = v"
    by (simp only: little_endian_16)
qed

text \<open>
  Claim C8. On a loaded blob of 48 bytes each setter comes back without touching the
  transport, and the blob keeps its length and every byte outside the setter's own
  offsets: 35 to 41 for \<^verbatim>\<open>set_datetime\<close> (also when a BCD conversion raises half-way),
  43 and 44 for \<^verbatim>\<open>set_animation_delay\<close>, 34 and 46 for \<^verbatim>\<open>set_frame_count\<close>. When the
  six BCD conversions succeed, \<^verbatim>\<open>set_datetime\<close> stores their values and the weekday and
  sets the dirty flag. \<^verbatim>\<open>set_animation_delay\<close> stores the argument clamped into
  \<open>[60, 65535]\<close>, low byte first, and \<^verbatim>\<open>set_frame_count\<close> stores its two arguments; both
  set the dirty flag.
\<close>

theorem setters_change_only_their_bytes:
  assumes "config s = PyList bs" and "length bs = 48"
  shows "(\<exists>r s1 bs1. set_datetime now s = Some (r, s1) \<and> usb s1 = usb s
            \<and> config s1 = PyList bs1 \<and> length bs1 = 48
            \<and> (\<forall>i<48. i \<notin> {35..41} \<longrightarrow> bs1 ! i = bs ! i))
     \<and> (\<forall>v0 v1 v2 v4 v5 v6.
            int_to_bcd (dt_second now) = Inr v0 \<and> int_to_bcd (dt_minute now) = Inr v1
            \<and> int_to_bcd (dt_hour now) = Inr v2 \<and> int_to_bcd (dt_day now) = Inr v4
            \<and> int_to_bcd (dt_month now) = Inr v5 \<and> int_to_bcd (dt_year now - 2000) = Inr v6
          \<longrightarrow> set_datetime now s
                = Some (Inr (), s\<lparr>config := PyList (bs[35 := v0, 36 := v1, 37 := v2,
                                                         38 := dt_isoweekday now,
                                                         39 := v4, 40 := v5, 41 := v6]),
                                  config_needs_update := True\<rparr>))
     \<and> (\<exists>lo hi. set_animation_delay ms s
                  = Some (Inr (), s\<lparr>config := PyList (bs[43 := lo, 44 := hi]),
                                    config_needs_update := True\<rparr>)
            \<and> 0 \<le> lo \<and> lo \<le> 255 \<and> 0 \<le> hi \<and> hi \<le> 255
            \<and> lo + 256 * hi = max 60 (min ms 65535)
            \<and> 60 \<le> lo + 256 * hi \<and> lo + 256 * hi \<le> 65535
            \<and> length (bs[43 := lo, 44 := hi]) = 48
            \<and> (\<forall>i<48. i \<notin> {43, 44} \<longrightarrow> bs[43 := lo, 44 := hi] ! i = bs ! i))
     \<and> set_frame_count first_count second_count s
           = Some (Inr (), s\<lparr>config := PyList (bs[34 := first_count, 46 := second_count]),
                             config_needs_update := True\<rparr>)
     \<and> length (bs[34 := first_count, 46 := second_count]) = 48
     \<and> (\<forall>i<48. i \<notin> {34, 46} \<longrightarrow> bs[34 := first_count, 46 := second_count] ! i = bs ! i)"
proof -
  have "\<forall>i\<in>{35..41::nat}. i < length bs"
    using assms(2) by simp
  with within_set_datetime [of now] assms(1) obtain r s1
    where run: "set_datetime now s = Some (r, s1)" and "only_changes {35..41} s s1"
    unfolding within_def by blast
  then obtain bs1 where "usb s1 = usb s" "config s1 = PyList bs1" "length bs1 = 48"
    "\<forall>i<48. i \<notin> {35..41} \<longrightarrow> bs1 ! i = bs ! i"
    using assms unfolding only_changes_def by auto
  with run have clock_frame: "\<exists>r s1 bs1. set_datetime now s = Some (r, s1) \<and> usb s1 = usb s
            \<and> config s1 = PyList bs1 \<and> length bs1 = 48
            \<and> (\<forall>i<48. i \<notin> {35..41} \<longrightarrow> bs1 ! i = bs ! i)"
    by blast
  have clock: "set_datetime now s
                = Some (Inr (), s\<lparr>config := PyList (bs[35 := v0, 36 := v1, 37 := v2,
                                                         38 := dt_isoweekday now,
                                                         39 := v4, 40 := v5, 41 := v6]),
                                  config_needs_update := True\<rparr>)"
    if "int_to_bcd (dt_second now) = Inr v0 \<and> int_to_bcd (dt_minute now) = Inr v1
            \<and> int_to_bcd (dt_hour now) = Inr v2 \<and> int_to_bcd (dt_day now) = Inr v4
            \<and> int_to_bcd (dt_month now) = Inr v5 \<and> int_to_bcd (dt_year now - 2000) = Inr v6"
    for v0 v1 v2 v4 v5 v6
    using that assms by (intro set_datetime_list) simp_all
  let ?v = "max 60 (min ms 0xffff)"
  let ?lo = "?v AND 0xff" and ?hi = "drop_bit 8 ?v AND 0xff"
  have "set_animation_delay ms s
                  = Some (Inr (), s\<lparr>config := PyList (bs[43 := ?lo, 44 := ?hi]),
                                    config_needs_update := True\<rparr>)"
    using assms by (intro set_animation_delay_list) simp_all
  moreover have "0 \<le> ?lo \<and> ?lo \<le> 255 \<and> 0 \<le> ?hi \<and> ?hi \<le> 255"
    by (simp only: byte_range simp_thms)
  moreover have "?lo + 256 * ?hi = max 60 (min ms 65535)"
    "60 \<le> ?lo + 256 * ?hi" "?lo + 256 * ?hi \<le> 65535"
    using clamped_delay_bytes [of ms] by simp_all
  moreover have "length (bs[43 := ?lo, 44 := ?hi]) = 48"
    "\<forall>i<48. i \<notin> {43, 44} \<longrightarrow> bs[43 := ?lo, 44 := ?hi] ! i = bs ! i"
    using assms(2) by simp_all
  ultimately have delay: "\<exists>lo hi. set_animation_delay ms s
                  = Some (Inr (), s\<lparr>config := PyList (bs[43 := lo, 44 := hi]),
                                    config_needs_update := True\<rparr>)
            \<and> 0 \<le> lo \<and> lo \<le> 255 \<and> 0 \<le> hi \<and> hi \<le> 255
            \<and> lo + 256 * hi = max 60 (min ms 65535)
            \<and> 60 \<le> lo + 256 * hi \<and> lo + 256 * hi \<le> 65535
            \<and> length (bs[43 := lo, 44 := hi]) = 48
            \<and> (\<forall>i<48. i \<notin> {43, 44} \<longrightarrow> bs[43 := lo, 44 := hi] ! i = bs ! i)"
    by blast
  have counts: "set_frame_count first_count second_count s
           = Some (Inr (), s\<lparr>config := PyList (bs[34 := first_count, 46 := second_count]),
                             config_needs_update := True\<rparr>)"
    using assms by (intro set_frame_count_list) simp_all
  have counts_frame: "length (bs[34 := first_count, 46 := second_count]) = 48"
    "\<forall>i<48. i \<notin> {34, 46} \<longrightarrow> bs[34 := first_count, 46 := second_count] ! i = bs ! i"
    using assms(2) by simp_all
  from clock have clock_all: "\<forall>v0 v1 v2 v4 v5 v6.
            int_to_bcd (dt_second now) = Inr v0 \<and> int_to_bcd (dt_minute now) = Inr v1
            \<and> int_to_bcd (dt_hour now) = Inr v2 \<and> int_to_bcd (dt_day now) = Inr v4
            \<and> int_to_bcd (dt_month now) = Inr v5 \<and> int_to_bcd (dt_year now - 2000) = Inr v6
          \<longrightarrow> set_datetime now s
                = Some (Inr (), s\<lparr>config := PyList (bs[35 := v0, 36 := v1, 37 := v2,
                                                         38 := dt_isoweekday now,
                                                         39 := v4, 40 := v5, 41 := v6]),
                                  config_needs_update := True\<rparr>)"
    by blast
  show ?thesis
    by (insert clock_frame clock_all delay counts counts_frame, intro conjI, assumption+)
qed

theorem setters_change_only_their_bytes_witness:
  "config loaded_keyboard = PyList factory_config
   \<and> length factory_config = 48
   \<and> set_datetime sample_now loaded_keyboard
       = Some (Inr (), loaded_keyboard
                \<lparr>config := PyList (factory_config[35 := 0x56, 36 := 0x34, 37 := 0x12, 38 := 3,
                                                   39 := 0x04, 40 := 0x11, 41 := 0x26]),
                 config_needs_update := True\<rparr>)
   \<and> (\<exists>lo hi. set_animation_delay 10 loaded_keyboard
          = Some (Inr (), loaded_keyboard
                   \<lparr>config := PyList (factory_config[43 := lo, 44 := hi]),
                    config_needs_update := True\<rparr>)
        \<and> lo + 256 * hi = 60)
   \<and> set_frame_count 10 5 loaded_keyboard
       = Some (Inr (), loaded_keyboard
                \<lparr>config := PyList (factory_config[34 := 10, 46 := 5]),
                 config_needs_update := True\<rparr>)"
proof -
  have held: "config loaded_keyboard = PyList factory_config"
    by (simp add: loaded_keyboard_def)
  have size: "length factory_config = 48"
    by (simp add: factory_config_def)
  note setters = setters_change_only_their_bytes [OF held size, of sample_now 10 10 5]
  have bcd: "int_to_bcd (dt_second sample_now) = Inr 0x56 \<and> int_to_bcd (dt_minute sample_now) = Inr 0x34
      \<and> int_to_bcd (dt_hour sample_now) = Inr 0x12 \<and> int_to_bcd (dt_day sample_now) = Inr 0x04
      \<and> int_to_bcd (dt_month sample_now) = Inr 0x11
      \<and> int_to_bcd (dt_year sample_now - 2000) = Inr 0x26"
    by (simp add: sample_now_def int_to_bcd_def)
  have clock: "set_datetime sample_now loaded_keyboard
       = Some (Inr (), loaded_keyboard
                \<lparr>config := PyList (factory_config[35 := 0x56, 36 := 0x34, 37 := 0x12, 38 := 3,
                                                   39 := 0x04, 40 := 0x11, 41 := 0x26]),
                 config_needs_update := True\<rparr>)"
    using setters [THEN conjunct2, THEN conjunct1, rule_format, OF bcd]
    by (simp add: sample_now_def)
  from setters [THEN conjunct2, THEN conjunct2, THEN conjunct1]
  obtain lo hi where "set_animation_delay 10 loaded_keyboard
                  = Some (Inr (), loaded_keyboard\<lparr>config := PyList (factory_config[43 := lo, 44 := hi]),
                                    config_needs_update := True\<rparr>)"
    and "lo + 256 * hi = max 60 (min 10 65535)"
    by blast
  then have delay: "\<exists>lo hi. set_animation_delay 10 loaded_keyboard
          = Some (Inr (), loaded_keyboard
                   \<lparr>config := PyList (factory_config[43 := lo, 44 := hi]),
                    config_needs_update := True\<rparr>)
        \<and> lo + 256 * hi = 60"
    by auto
  have counts: "set_frame_count 10 5 loaded_keyboard
       = Some (Inr (), loaded_keyboard
                \<lparr>config := PyList (factory_config[34 := 10, 46 := 5]),
                 config_needs_update := True\<rparr>)"
    by (rule setters [THEN conjunct2, THEN conjunct2, THEN conjunct2, THEN conjunct1])
  from held size clock delay counts show ?thesis
    by (simp only: simp_thms)
qed

lemma config_setitem_bytearray:
  assumes "config s = PyBytearray bs" "i < length bs" "0 \<le> v" "v \<le> 255"
  shows "config_setitem i v s = Some (Inr (), s\<lparr>config := PyBytearray (bs[i := v])\<rparr>)"
  using assms by (simp add: config_setitem_def)

lemma config_setitem_bytearray_range:
  assumes "config s = PyBytearray bs" "v < 0 \<or> 255 < v"
  shows "config_setitem i v s = Some (Inl (ValueError ''byte must be in range(0, 256)''), s)"
  using assms by (auto simp: config_setitem_def)

lemma set_frame_count_bytearray_stores:
  assumes "config s = PyBytearray bs" "46 < length bs"
    and "0 \<le> first_count" "first_count \<le> 255" "0 \<le> second_count" "second_count \<le> 255"
  shows "set_frame_count first_count second_count s
     = Some (Inr (), s\<lparr>config := PyBytearray (bs[34 := first_count, 46 := second_count]),
                       config_needs_update := True\<rparr>)"
proof -
  have "blob_items (config s) \<noteq> []"
    using assms(1,2) by auto
  then show ?thesis
    using assms
    by (simp add: set_frame_count_def and_then_def ensure_config_held config_setitem_bytearray
        mark_dirty_def FRAMES_1_OFFSET_def FRAMES_2_OFFSET_def)
qed

lemma set_frame_count_bytearray_first:
  assumes "config s = PyBytearray bs" "46 < length bs"
    and "first_count < 0 \<or> 255 < first_count"
  shows "set_frame_count first_count second_count s
     = Some (Inl (ValueError ''byte must be in range(0, 256)''), s)"
proof -
  have "blob_items (config s) \<noteq> []"
    using assms(1,2) by auto
  then show ?thesis
    using assms(1,3)
    by (simp add: set_frame_count_def and_then_def ensure_config_held
        config_setitem_bytearray_range)
qed

lemma set_frame_count_bytearray_second:
  assumes "config s = PyBytearray bs" "46 < length bs"
    and "0 \<le> first_count" "first_count \<le> 255" "second_count < 0 \<or> 255 < second_count"
  shows "set_frame_count first_count second_count s
     = Some (Inl (ValueError ''byte must be in range(0, 256)''),
             s\<lparr>config := PyBytearray (bs[34 := first_count])\<rparr>)"
proof -
  have "blob_items (config s) \<noteq> []"
    using assms(1,2) by auto
  moreover have "config_setitem 46 second_count (s\<lparr>config := PyBytearray (bs[34 := first_count])\<rparr>)
      = Some (Inl (ValueError ''byte must be in range(0, 256)''),
              s\<lparr>config := PyBytearray (bs[34 := first_count])\<rparr>)"
    using assms(5) by (intro config_setitem_bytearray_range) simp_all
  ultimately show ?thesis
    using assms(1-4)
    by (simp add: set_frame_count_def and_then_def ensure_config_held config_setitem_bytearray
        FRAMES_1_OFFSET_def FRAMES_2_OFFSET_def)
qed

lemma reset_config_eq:
  "factory_config[35 := 0x56, 36 := 0x34, 37 := 0x12, 38 := 3, 39 := 0x04, 40 := 0x11,
                  41 := 0x26, 43 := 100, 44 := 0, 34 := 0, 46 := 0] = reset_config"
  by (simp add: factory_config_def reset_config_def)


lemma unboxed_keyboard_run: "reset sample_now unboxed_keyboard = Some (Inr (), reset_keyboard)"
  by (simp add: reset_def and_then_def set_datetime_def set_animation_delay_def
      set_frame_count_def update_config_def ensure_config_def config_setitem_def raise_or_def
      mark_dirty_def done_with_def int_to_bcd_def sample_now_def DATE_OFFSET_def
      DELAY_OFFSET_def FRAMES_1_OFFSET_def FRAMES_2_OFFSET_def DEFAULT_ANIMATION_DELAY_MS_def
      send_command_step request_buffer_header unboxed_keyboard_def reset_keyboard_def
      reset_config_def factory_config_def Keyboard_init_def logged_def consume_def Let_def
      del: consume_logged logged_logged consume_consume)

text \<open>
  Claim C10, as the code has it. \<^verbatim>\<open>set_frame_count\<close> makes no check of its own, so what
  it accepts is what the blob accepts. On a blob as \<^verbatim>\<open>load_config\<close> builds it (a list,
  here of at least 47 entries) it returns normally for every pair of integers, negative
  ones, ones above 255 and totals above 90 included, with both values stored as they
  are at offsets 34 and 46 and the dirty flag set. On the \<^verbatim>\<open>bytearray\<close> that \<^verbatim>\<open>reset\<close>
  installs, values from 0 to 255 are stored in the same way, whatever their total; a
  first value outside this range raises ValueError with nothing stored, a second one
  raises it after the first value was stored, and the dirty flag is left as it was.
\<close>

theorem set_frame_count_unchecked:
  "(config s = PyList bs \<and> 46 < length bs \<longrightarrow>
      set_frame_count first_count second_count s
        = Some (Inr (), s\<lparr>config := PyList (bs[34 := first_count, 46 := second_count]),
                          config_needs_update := True\<rparr>)
      \<and> bs[34 := first_count, 46 := second_count] ! 34 = first_count
      \<and> bs[34 := first_count, 46 := second_count] ! 46 = second_count)
   \<and> (config s = PyBytearray bs \<and> 46 < length bs
        \<and> 0 \<le> first_count \<and> first_count \<le> 255 \<and> 0 \<le> second_count \<and> second_count \<le> 255 \<longrightarrow>
      set_frame_count first_count second_count s
        = Some (Inr (), s\<lparr>config := PyBytearray (bs[34 := first_count, 46 := second_count]),
                          config_needs_update := True\<rparr>))
   \<and> (config s = PyBytearray bs \<and> 46 < length bs
        \<and> (first_count < 0 \<or> 255 < first_count) \<longrightarrow>
      set_frame_count first_count second_count s
        = Some (Inl (ValueError ''byte must be in range(0, 256)''), s))
   \<and> (config s = PyBytearray bs \<and> 46 < length bs
        \<and> 0 \<le> first_count \<and> first_count \<le> 255 \<and> (second_count < 0 \<or> 255 < second_count) \<longrightarrow>
      set_frame_count first_count second_count s
        = Some (Inl (ValueError ''byte must be in range(0, 256)''),
                s\<lparr>config := PyBytearray (bs[34 := first_count])\<rparr>))"
proof (intro conjI impI)
  assume "config s = PyList bs \<and> 46 < length bs"
  then show "set_frame_count first_count second_count s
        = Some (Inr (), s\<lparr>config := PyList (bs[34 := first_count, 46 := second_count]),
                          config_needs_update := True\<rparr>)"
    "bs[34 := first_count, 46 := second_count] ! 34 = first_count"
    "bs[34 := first_count, 46 := second_count] ! 46 = second_count"
    by (simp_all add: set_frame_count_list)
next
  assume "config s = PyBytearray bs \<and> 46 < length bs
        \<and> 0 \<le> first_count \<and> first_count \<le> 255 \<and> 0 \<le> second_count \<and> second_count \<le> 255"
  then show "set_frame_count first_count second_count s
        = Some (Inr (), s\<lparr>config := PyBytearray (bs[34 := first_count, 46 := second_count]),
                          config_needs_update := True\<rparr>)"
    by (intro set_frame_count_bytearray_stores) simp_all
next
  assume "config s = PyBytearray bs \<and> 46 < length bs \<and> (first_count < 0 \<or> 255 < first_count)"
  then show "set_frame_count first_count second_count s
        = Some (Inl (ValueError ''byte must be in range(0, 256)''), s)"
    by (intro set_frame_count_bytearray_first [of s bs]) simp_all
next
  assume "config s = PyBytearray bs \<and> 46 < length bs
        \<and> 0 \<le> first_count \<and> first_count \<le> 255 \<and> (second_count < 0 \<or> 255 < second_count)"
  then show "set_frame_count first_count second_count s
        = Some (Inl (ValueError ''byte must be in range(0, 256)''),
                s\<lparr>config := PyBytearray (bs[34 := first_count])\<rparr>)"
    by (intro set_frame_count_bytearray_second) simp_all
qed

theorem set_frame_count_unchecked_witness:
  "config loaded_keyboard = PyList factory_config
   \<and> 46 < length factory_config
   \<and> set_frame_count (- 1) 300 loaded_keyboard
       = Some (Inr (), loaded_keyboard
                \<lparr>config := PyList (factory_config[34 := - 1, 46 := 300]),
                 config_needs_update := True\<rparr>)
   \<and> factory_config[34 := - 1, 46 := 300] ! 34 = - 1
   \<and> factory_config[34 := - 1, 46 := 300] ! 46 = 300
   \<and> config reset_keyboard = PyBytearray reset_config
   \<and> 46 < length reset_config
   \<and> set_frame_count 10 5 reset_keyboard
       = Some (Inr (), reset_keyboard
                \<lparr>config := PyBytearray (reset_config[34 := 10, 46 := 5]),
                 config_needs_update := True\<rparr>)
   \<and> set_frame_count (- 1) 300 reset_keyboard
       = Some (Inl (ValueError ''byte must be in range(0, 256)''), reset_keyboard)
   \<and> set_frame_count 10 300 reset_keyboard
       = Some (Inl (ValueError ''byte must be in range(0, 256)''),
               reset_keyboard\<lparr>config := PyBytearray (reset_config[34 := 10])\<rparr>)"
proof -
  have held: "config loaded_keyboard = PyList factory_config"
    by (simp add: loaded_keyboard_def)
  have size: "46 < length factory_config"
    by (simp add: factory_config_def)
  have held': "config reset_keyboard = PyBytearray reset_config"
    by (simp add: reset_keyboard_def)
  have size': "46 < length reset_config"
    by (simp add: reset_config_def)
  note a = set_frame_count_unchecked [of loaded_keyboard factory_config "- 1" 300,
      THEN conjunct1, rule_format, OF conjI [OF held size]]
  have b: "set_frame_count 10 5 reset_keyboard
       = Some (Inr (), reset_keyboard
                \<lparr>config := PyBytearray (reset_config[34 := 10, 46 := 5]),
                 config_needs_update := True\<rparr>)"
    by (rule set_frame_count_unchecked [of reset_keyboard reset_config 10 5,
          THEN conjunct2, THEN conjunct1, rule_format]) (simp add: held' size')
  have c: "set_frame_count (- 1) 300 reset_keyboard
       = Some (Inl (ValueError ''byte must be in range(0, 256)''), reset_keyboard)"
    by (rule set_frame_count_unchecked [of reset_keyboard reset_config "- 1" 300,
          THEN conjunct2, THEN conjunct2, THEN conjunct1, rule_format]) (simp add: held' size')
  have d: "set_frame_count 10 300 reset_keyboard
       = Some (Inl (ValueError ''byte must be in range(0, 256)''),
               reset_keyboard\<lparr>config := PyBytearray (reset_config[34 := 10])\<rparr>)"
    by (rule set_frame_count_unchecked [of reset_keyboard reset_config 10 300,
          THEN conjunct2, THEN conjunct2, THEN conjunct2, rule_format]) (simp add: held' size')
  from held size a held' size' b c d show ?thesis
    by (simp only: simp_thms)
qed


text \<open>
  The claim as it is written says that the call never fails and stores any pair of
  integers. After a \<^verbatim>\<open>reset\<close> the keyboard holds a \<^verbatim>\<open>bytearray\<close>, and there a count of
  300 is refused.
\<close>

theorem set_frame_count_after_reset_counterexample:
  "reset sample_now unboxed_keyboard = Some (Inr (), reset_keyboard)
   \<and> set_frame_count 300 0 reset_keyboard
       = Some (Inl (ValueError ''byte must be in range(0, 256)''), reset_keyboard)"
proof -
  have "config reset_keyboard = PyBytearray reset_config" "46 < length reset_config"
    by (simp_all add: reset_keyboard_def reset_config_def)
  then have "set_frame_count 300 0 reset_keyboard
       = Some (Inl (ValueError ''byte must be in range(0, 256)''), reset_keyboard)"
    by (rule set_frame_count_bytearray_first) simp
  with unboxed_keyboard_run show ?thesis
    by (simp only: simp_thms)
qed


section \<open>Properties of upload_frames\<close>

















end
